theory Spec2Isabelle
  imports Main "HOL-Library.AList"
begin

section \<open>Data model of the session store\<close>

text \<open>
  The development follows the first translation unit of the repository (the build
  without autonomous transactions, so every level is the sub-transaction nesting
  level alone).  The structures of the header are reconstructed from the way the
  code uses them.

  \<^item> A hash table keyed by the NUL-terminated name is an association list with
    distinct keys; the order of the list is the order in which a sequential scan
    of the table visits the entries.  A table pointer that may be NULL is an
    \<open>option\<close>.
  \<^item> A doubly linked list of states is a list, head first: the head is the
    actual state.
  \<^item> A pointer to a package is the key of the package; a pointer to a variable
    is the key of its package, the table it lives in and its own key.
  \<^item> Memory contexts are not modelled: a context is created and deleted together
    with the table or the value that lives in it, and copying a datum yields an
    equal datum.
\<close>

type_synonym key = string
type_synonym Oid = nat
type_synonym Datum = int

definition NAMEDATALEN :: nat where
  "NAMEDATALEN = 64"

definition InvalidOid :: Oid where
  "InvalidOid = 0"

text \<open>
  Every user error of the code is raised with the same error code and a message of
  its own; the constructors name the messages:
  \<^item> \<open>InvalidParameter\<close>: name "... is too long";
  \<^item> \<open>UnknownPackage\<close>: unrecognized package;
  \<^item> \<open>UnknownVariable\<close>: unrecognized variable;
  \<^item> \<open>TypeMismatch\<close>: variable requires another type of value;
  \<^item> \<open>KindMismatch\<close>: the variable is not a record (scalar) variable;
  \<^item> \<open>TransactionalityConflict\<close>: variable already created as (NOT) TRANSACTIONAL;
  \<^item> \<open>Fault\<close>: the code dereferences a NULL pointer or reads the head of an
    empty list (undefined behaviour in C).
\<close>

datatype error =
    InvalidParameter
  | UnknownPackage
  | UnknownVariable
  | TypeMismatch
  | KindMismatch
  | TransactionalityConflict
  | Fault

record TransState =
  is_valid :: bool
  level :: int

record PackState = TransState +
  trans_var_num :: int

record ScalarVar =
  datum_value :: Datum
  is_null :: bool

record RecordVar =
  tupdesc :: "nat option"
  rhash :: "(Datum \<times> Datum) list"

text \<open>
  The value of a variable state is a C union of a scalar and a record; which member
  is live is fixed by the flag \<open>is_record\<close> of the variable, and the code never
  reads the other one.  The model keeps both members side by side.
\<close>

record VarState = TransState +
  scalar :: ScalarVar
  recordv :: RecordVar

record 'st TransObject =
  name :: key
  states :: "'st list"

record Variable = "VarState TransObject" +
  package :: key
  typid :: Oid
  is_record :: bool
  is_transactional :: bool
  is_deleted :: bool

record Package = "PackState TransObject" +
  varHashRegular :: "(key \<times> Variable) list option"
  varHashTransact :: "(key \<times> Variable) list option"

type_synonym varptr = "key \<times> bool \<times> key"

datatype objptr = PackObj key | VarObj varptr

record ChangesStackNode =
  changedVarsList :: "varptr list"
  changedPacksList :: "key list"

record VariableStatEntry =
  status :: nat
  variable :: varptr
  entry_package :: key
  levels :: int
  user_fctx :: "nat option"

record PackageStatEntry =
  pstatus :: nat
  plevels :: int
  puser_fctx :: "nat option"

text \<open>
  The session state: the globals of the module, and the parts of the host the code
  reads or writes: the nesting level of the current transaction, the sequential
  scans registered with the hash table library, and the cells
  \<open>funcctx->user_fctx\<close> of the set-returning calls in progress (by address; the
  content is the scan handle, or NULL).
\<close>

record pgv =
  packagesHash :: "(key \<times> Package) list option"
  changesStack :: "ChangesStackNode list option"
  variables_stats :: "VariableStatEntry list"
  packages_stats :: "PackageStatEntry list"
  LastPackage :: "key option"
  LastVariable :: "varptr option"
  nestLevel :: int
  seq_scans :: "nat list"
  fctx_cells :: "(nat \<times> nat option) list"

type_synonym 'a res = "(error \<times> pgv) + ('a \<times> pgv)"

definition bnd :: "'a res \<Rightarrow> ('a \<Rightarrow> pgv \<Rightarrow> 'b res) \<Rightarrow> 'b res" where
  "bnd r f = (case r of Inl e \<Rightarrow> Inl e | Inr (a, s) \<Rightarrow> f a s)"

section \<open>Names and keys\<close>

text \<open>
  \<open>getKeyFromName\<close>: the length of the text is compared with
  \<open>NAMEDATALEN - 1\<close>; the key is the text copied as a C string, so it ends at the
  first NUL byte.
\<close>

definition getKeyFromName :: "string \<Rightarrow> error + key" where
  "getKeyFromName nm =
     (if length nm \<ge> NAMEDATALEN - 1 then Inl InvalidParameter
      else Inr (takeWhile (\<lambda>c. c \<noteq> CHR 0x00) nm))"

section \<open>Objects behind pointers\<close>

definition find_package :: "pgv \<Rightarrow> key \<Rightarrow> Package option" where
  "find_package s k = (case packagesHash s of None \<Rightarrow> None | Some h \<Rightarrow> map_of h k)"

definition map_package :: "key \<Rightarrow> (Package \<Rightarrow> Package) \<Rightarrow> pgv \<Rightarrow> pgv" where
  "map_package k f s = s\<lparr>packagesHash := map_option (AList.map_entry k f) (packagesHash s)\<rparr>"

definition pack_htab :: "Package \<Rightarrow> bool \<Rightarrow> (key \<times> Variable) list option" where
  "pack_htab pack is_trans = (if is_trans then varHashTransact pack else varHashRegular pack)"

definition map_htab ::
  "bool \<Rightarrow> ((key \<times> Variable) list option \<Rightarrow> (key \<times> Variable) list option) \<Rightarrow> Package \<Rightarrow> Package" where
  "map_htab is_trans f pack =
     (if is_trans then pack\<lparr>varHashTransact := f (varHashTransact pack)\<rparr>
      else pack\<lparr>varHashRegular := f (varHashRegular pack)\<rparr>)"

definition find_variable :: "pgv \<Rightarrow> varptr \<Rightarrow> Variable option" where
  "find_variable s vp =
     (case vp of (pk, tr, vk) \<Rightarrow>
        (case find_package s pk of None \<Rightarrow> None
         | Some pack \<Rightarrow> (case pack_htab pack tr of None \<Rightarrow> None | Some h \<Rightarrow> map_of h vk)))"

definition map_variable :: "varptr \<Rightarrow> (Variable \<Rightarrow> Variable) \<Rightarrow> pgv \<Rightarrow> pgv" where
  "map_variable vp f s =
     (case vp of (pk, tr, vk) \<Rightarrow>
        map_package pk (map_htab tr (map_option (AList.map_entry vk f))) s)"

text \<open>The part of a state that packages and variables share.\<close>

definition hdr :: "'a TransState_scheme \<Rightarrow> TransState" where
  "hdr st = \<lparr>is_valid = is_valid st, level = level st\<rparr>"

text \<open>
  The states of an object, head first.  An entry that has left its hash table has
  had all its states removed, so an object that is not in the store has no state.
\<close>

definition obj_states :: "pgv \<Rightarrow> objptr \<Rightarrow> TransState list" where
  "obj_states s object =
     (case object of
        PackObj k \<Rightarrow> (case find_package s k of None \<Rightarrow> [] | Some pack \<Rightarrow> map hdr (states pack))
      | VarObj vp \<Rightarrow> (case find_variable s vp of None \<Rightarrow> [] | Some var \<Rightarrow> map hdr (states var)))"

definition map_head :: "('a \<Rightarrow> 'a) \<Rightarrow> 'a list \<Rightarrow> 'a list" where
  "map_head f xs = (case xs of [] \<Rightarrow> [] | x # r \<Rightarrow> f x # r)"

definition set_head_level :: "objptr \<Rightarrow> int \<Rightarrow> pgv \<Rightarrow> pgv" where
  "set_head_level object l s =
     (case object of
        PackObj k \<Rightarrow> map_package k (\<lambda>pack. pack\<lparr>states := map_head (\<lambda>st. st\<lparr>level := l\<rparr>) (states pack)\<rparr>) s
      | VarObj vp \<Rightarrow> map_variable vp (\<lambda>var. var\<lparr>states := map_head (\<lambda>st. st\<lparr>level := l\<rparr>) (states var)\<rparr>) s)"

definition set_head_valid :: "objptr \<Rightarrow> bool \<Rightarrow> pgv \<Rightarrow> pgv" where
  "set_head_valid object b s =
     (case object of
        PackObj k \<Rightarrow> map_package k (\<lambda>pack. pack\<lparr>states := map_head (\<lambda>st. st\<lparr>is_valid := b\<rparr>) (states pack)\<rparr>) s
      | VarObj vp \<Rightarrow> map_variable vp (\<lambda>var. var\<lparr>states := map_head (\<lambda>st. st\<lparr>is_valid := b\<rparr>) (states var)\<rparr>) s)"

definition GetCurrentTransactionNestLevel :: "pgv \<Rightarrow> int" where
  "GetCurrentTransactionNestLevel s = nestLevel s"

definition GetActualState :: "objptr \<Rightarrow> pgv \<Rightarrow> TransState res" where
  "GetActualState object s =
     (case obj_states s object of [] \<Rightarrow> Inl (Fault, s) | st # _ \<Rightarrow> Inr (st, s))"

definition resetVariablesCache :: "pgv \<Rightarrow> pgv" where
  "resetVariablesCache s = s\<lparr>LastPackage := None, LastVariable := None\<rparr>"

section \<open>The cursor registry\<close>

text \<open>
  \<open>hash_seq_term\<close> of the hash table library takes the scan out of the scans
  registered with the library.
\<close>

definition hash_seq_term :: "nat \<Rightarrow> pgv \<Rightarrow> pgv" where
  "hash_seq_term st s = s\<lparr>seq_scans := removeAll st (seq_scans s)\<rparr>"

definition VariableStatEntry_clear_fctx :: "VariableStatEntry \<Rightarrow> pgv \<Rightarrow> pgv" where
  "VariableStatEntry_clear_fctx e s =
     (case user_fctx e of None \<Rightarrow> s
      | Some a \<Rightarrow> s\<lparr>fctx_cells := AList.update a None (fctx_cells s)\<rparr>)"

definition PackageStatEntry_clear_fctx :: "PackageStatEntry \<Rightarrow> pgv \<Rightarrow> pgv" where
  "PackageStatEntry_clear_fctx e s =
     (case puser_fctx e of None \<Rightarrow> s
      | Some a \<Rightarrow> s\<lparr>fctx_cells := AList.update a None (fctx_cells s)\<rparr>)"

text \<open>
  \<open>list_remove_if\<close> on a list of variable entries and on a list of package entries:
  the entries left in the list, and the state after the matching entries were
  terminated (when \<open>term\<close> is set) and their consumers' cells cleared.
\<close>

fun list_remove_if_vars ::
  "(VariableStatEntry \<Rightarrow> bool) \<Rightarrow> bool \<Rightarrow> bool \<Rightarrow> VariableStatEntry list \<Rightarrow> pgv
     \<Rightarrow> VariableStatEntry list \<times> pgv" where
  "list_remove_if_vars eq match_first term [] s = ([], s)"
| "list_remove_if_vars eq match_first term (entry # rest) s =
     (if eq entry then
        (let s1 = (if term then hash_seq_term (status entry) s else s);
             s2 = VariableStatEntry_clear_fctx entry s1
         in if match_first then (rest, s2)
            else list_remove_if_vars eq match_first term rest s2)
      else (case list_remove_if_vars eq match_first term rest s of
              (kept, s') \<Rightarrow> (entry # kept, s')))"

fun list_remove_if_packs ::
  "(PackageStatEntry \<Rightarrow> bool) \<Rightarrow> bool \<Rightarrow> bool \<Rightarrow> PackageStatEntry list \<Rightarrow> pgv
     \<Rightarrow> PackageStatEntry list \<times> pgv" where
  "list_remove_if_packs eq match_first term [] s = ([], s)"
| "list_remove_if_packs eq match_first term (entry # rest) s =
     (if eq entry then
        (let s1 = (if term then hash_seq_term (pstatus entry) s else s);
             s2 = PackageStatEntry_clear_fctx entry s1
         in if match_first then (rest, s2)
            else list_remove_if_packs eq match_first term rest s2)
      else (case list_remove_if_packs eq match_first term rest s of
              (kept, s') \<Rightarrow> (entry # kept, s')))"

definition remove_variables_if ::
  "(VariableStatEntry \<Rightarrow> bool) \<Rightarrow> bool \<Rightarrow> bool \<Rightarrow> pgv \<Rightarrow> pgv" where
  "remove_variables_if eq match_first term s =
     (case list_remove_if_vars eq match_first term (variables_stats s) s of
        (kept, s') \<Rightarrow> s'\<lparr>variables_stats := kept\<rparr>)"

definition remove_packages_if ::
  "(PackageStatEntry \<Rightarrow> bool) \<Rightarrow> bool \<Rightarrow> bool \<Rightarrow> pgv \<Rightarrow> pgv" where
  "remove_packages_if eq match_first term s =
     (case list_remove_if_packs eq match_first term (packages_stats s) s of
        (kept, s') \<Rightarrow> s'\<lparr>packages_stats := kept\<rparr>)"

definition remove_variables_status :: "nat \<Rightarrow> pgv \<Rightarrow> pgv" where
  "remove_variables_status st = remove_variables_if (\<lambda>e. status e = st) True False"

definition remove_variables_variable :: "objptr \<Rightarrow> pgv \<Rightarrow> pgv" where
  "remove_variables_variable object =
     remove_variables_if (\<lambda>e. VarObj (variable e) = object) False True"

definition remove_variables_package :: "key \<Rightarrow> pgv \<Rightarrow> pgv" where
  "remove_variables_package pk = remove_variables_if (\<lambda>e. entry_package e = pk) False True"

definition remove_variables_level :: "int \<Rightarrow> pgv \<Rightarrow> pgv" where
  "remove_variables_level l = remove_variables_if (\<lambda>e. levels e = l) False False"

definition remove_variables_all :: "pgv \<Rightarrow> pgv" where
  "remove_variables_all = remove_variables_if (\<lambda>e. True) False True"

definition remove_packages_status :: "nat \<Rightarrow> pgv \<Rightarrow> pgv" where
  "remove_packages_status st = remove_packages_if (\<lambda>e. pstatus e = st) True False"

definition remove_packages_level :: "int \<Rightarrow> pgv \<Rightarrow> pgv" where
  "remove_packages_level l = remove_packages_if (\<lambda>e. plevels e = l) False True"

definition freeStatsLists :: "pgv \<Rightarrow> pgv" where
  "freeStatsLists s =
     (let s1 = fold (\<lambda>entry. hash_seq_term (status entry)) (variables_stats s) s;
          s2 = s1\<lparr>variables_stats := []\<rparr>;
          s3 = fold (\<lambda>entry. hash_seq_term (pstatus entry)) (packages_stats s2) s2
      in s3\<lparr>packages_stats := []\<rparr>)"

section \<open>The changes stack\<close>

definition isObjectChangedInCurrentTrans :: "objptr \<Rightarrow> pgv \<Rightarrow> bool res" where
  "isObjectChangedInCurrentTrans object s =
     (case changesStack s of
        None \<Rightarrow> Inr (False, s)
      | Some _ \<Rightarrow>
          (case obj_states s object of
             [] \<Rightarrow> Inl (Fault, s)
           | state # _ \<Rightarrow> Inr (level state = GetCurrentTransactionNestLevel s, s)))"

definition isObjectChangedInUpperTrans :: "objptr \<Rightarrow> pgv \<Rightarrow> bool res" where
  "isObjectChangedInUpperTrans object s =
     (case obj_states s object of
        [] \<Rightarrow> Inl (Fault, s)
      | cur_state # rest \<Rightarrow>
          (case rest of
             prev_state # _ \<Rightarrow>
               (if level cur_state = GetCurrentTransactionNestLevel s
                then Inr (level prev_state = GetCurrentTransactionNestLevel s - 1, s)
                else Inr (level cur_state = GetCurrentTransactionNestLevel s - 1, s))
           | [] \<Rightarrow> Inr (level cur_state = GetCurrentTransactionNestLevel s - 1, s)))"

definition pushChangesStack :: "pgv \<Rightarrow> pgv" where
  "pushChangesStack s =
     s\<lparr>changesStack :=
         Some (\<lparr>changedVarsList = [], changedPacksList = []\<rparr>
               # (case changesStack s of None \<Rightarrow> [] | Some st \<Rightarrow> st))\<rparr>"

primrec push_levels :: "nat \<Rightarrow> pgv \<Rightarrow> pgv" where
  "push_levels 0 s = s"
| "push_levels (Suc n) s = push_levels n (pushChangesStack s)"

definition prepareChangesStack :: "pgv \<Rightarrow> pgv" where
  "prepareChangesStack s =
     (case changesStack s of
        Some _ \<Rightarrow> s
      | None \<Rightarrow> push_levels (nat (GetCurrentTransactionNestLevel s)) s)"

text \<open>The node of a changed object is pushed on the list of its type.\<close>

definition push_changed :: "objptr \<Rightarrow> ChangesStackNode \<Rightarrow> ChangesStackNode" where
  "push_changed object csn =
     (case object of
        PackObj k \<Rightarrow> csn\<lparr>changedPacksList := k # changedPacksList csn\<rparr>
      | VarObj vp \<Rightarrow> csn\<lparr>changedVarsList := vp # changedVarsList csn\<rparr>)"

definition addToChangesStack :: "objptr \<Rightarrow> pgv \<Rightarrow> unit res" where
  "addToChangesStack object s =
     bnd (isObjectChangedInCurrentTrans object (prepareChangesStack s)) (\<lambda>changed s1.
       if changed then Inr ((), s1)
       else (case changesStack s1 of
               None \<Rightarrow> Inl (Fault, s1)
             | Some [] \<Rightarrow> Inl (Fault, s1)
             | Some (csn # rest) \<Rightarrow>
                 Inr ((), set_head_level object (GetCurrentTransactionNestLevel s1)
                            (s1\<lparr>changesStack := Some (push_changed object csn # rest)\<rparr>))))"

definition addToChangesStackUpperLevel :: "objptr \<Rightarrow> pgv \<Rightarrow> unit res" where
  "addToChangesStackUpperLevel object s =
     (case changesStack s of
        None \<Rightarrow> Inl (Fault, s)
      | Some [] \<Rightarrow> Inl (Fault, s)
      | Some (csn # rest) \<Rightarrow> Inr ((), s\<lparr>changesStack := Some (push_changed object csn # rest)\<rparr>))"

text \<open>\<open>dlist_is_empty(changesStack)\<close>; the pointer itself must not be NULL.\<close>

definition changesStack_is_empty :: "pgv \<Rightarrow> bool res" where
  "changesStack_is_empty s =
     (case changesStack s of None \<Rightarrow> Inl (Fault, s) | Some st \<Rightarrow> Inr (st = [], s))"

section \<open>Histories of states\<close>

definition datumCopy :: "Datum \<Rightarrow> Datum" where
  "datumCopy v = v"

definition zero_VarState :: VarState where
  "zero_VarState =
     \<lparr>is_valid = False, level = 0,
      scalar = \<lparr>datum_value = 0, is_null = False\<rparr>,
      recordv = \<lparr>tupdesc = None, rhash = []\<rparr>\<rparr>"

definition initObjectHistory :: "objptr \<Rightarrow> pgv \<Rightarrow> pgv" where
  "initObjectHistory object s =
     (case object of
        PackObj k \<Rightarrow>
          map_package k (\<lambda>pack. pack\<lparr>states := [\<lparr>is_valid = True, level = 0, trans_var_num = 0\<rparr>]\<rparr>) s
      | VarObj vp \<Rightarrow>
          map_variable vp (\<lambda>var. var\<lparr>states :=
             [if \<not> is_record var
              then zero_VarState\<lparr>is_valid := True, scalar := (scalar zero_VarState)\<lparr>is_null := True\<rparr>\<rparr>
              else zero_VarState\<lparr>is_valid := True\<rparr>]\<rparr>) s)"

text \<open>
  \<open>copyValue\<close>.  For a record the new state gets a table of its own with a copy of
  every row of the source; the functions that build it are not part of this
  translation unit.
\<close>

definition copyValue :: "VarState \<Rightarrow> VarState \<Rightarrow> Variable \<Rightarrow> VarState" where
  "copyValue src dest destVar =
     (if is_record destVar
      then dest\<lparr>recordv := \<lparr>tupdesc = tupdesc (recordv src), rhash = rhash (recordv src)\<rparr>\<rparr>
      else dest\<lparr>scalar :=
             (if \<not> is_null (scalar src)
              then (scalar src)\<lparr>datum_value := datumCopy (datum_value (scalar src))\<rparr>
              else (scalar src)\<lparr>datum_value := 0\<rparr>)\<rparr>)"

text \<open>
  \<open>removeState\<close>: the state at the given position of the list is unlinked (its
  value is freed with it).
\<close>

definition delete_nth :: "nat \<Rightarrow> 'a list \<Rightarrow> 'a list" where
  "delete_nth i xs = take i xs @ drop (Suc i) xs"

definition removeState :: "objptr \<Rightarrow> nat \<Rightarrow> pgv \<Rightarrow> pgv" where
  "removeState object i s =
     (case object of
        PackObj k \<Rightarrow> map_package k (\<lambda>pack. pack\<lparr>states := delete_nth i (states pack)\<rparr>) s
      | VarObj vp \<Rightarrow> map_variable vp (\<lambda>var. var\<lparr>states := delete_nth i (states var)\<rparr>) s)"

definition numOfRegVars :: "Package \<Rightarrow> int" where
  "numOfRegVars pack = (case varHashRegular pack of Some h \<Rightarrow> int (length h) | None \<Rightarrow> 0)"

definition isPackageEmpty :: "key \<Rightarrow> pgv \<Rightarrow> bool res" where
  "isPackageEmpty k s =
     (case find_package s k of
        None \<Rightarrow> Inl (Fault, s)
      | Some pack \<Rightarrow>
          (case states pack of
             [] \<Rightarrow> Inl (Fault, s)
           | st # _ \<Rightarrow> Inr (trans_var_num st + numOfRegVars pack = 0, s)))"

text \<open>
  \<open>removeObject\<close>; in this build it always returns true, so the model returns the
  state alone.
\<close>

definition removeObject :: "objptr \<Rightarrow> pgv \<Rightarrow> unit res" where
  "removeObject object s =
     (case object of
        PackObj k \<Rightarrow>
          (case packagesHash s of
             None \<Rightarrow> Inl (Fault, s)
           | Some h \<Rightarrow>
               Inr ((), resetVariablesCache
                          (remove_variables_variable object
                             (s\<lparr>packagesHash := Some (AList.delete k h)\<rparr>))))
      | VarObj (pk, tr, vk) \<Rightarrow>
          (case find_package s pk of
             None \<Rightarrow> Inl (Fault, s)
           | Some pack \<Rightarrow>
               (case pack_htab pack tr of
                  None \<Rightarrow> Inl (Fault, s)
                | Some h \<Rightarrow>
                    bnd (isPackageEmpty pk
                           (remove_variables_variable object
                              (map_package pk (map_htab tr (map_option (AList.delete vk))) s)))
                      (\<lambda>empty s1.
                         Inr ((), resetVariablesCache
                                    (if empty then set_head_valid (PackObj pk) False s1 else s1))))))"

text \<open>
  \<open>createSavepoint\<close>: the new state is made from the actual one and pushed on the
  list; an object without states is a fault.
\<close>

definition push_copy :: "('a \<Rightarrow> 'a) \<Rightarrow> 'a list \<Rightarrow> 'a list" where
  "push_copy f xs = (case xs of [] \<Rightarrow> [] | prevState # _ \<Rightarrow> f prevState # xs)"

definition createSavepoint :: "objptr \<Rightarrow> pgv \<Rightarrow> unit res" where
  "createSavepoint object s =
     (case obj_states s object of
        [] \<Rightarrow> Inl (Fault, s)
      | _ # _ \<Rightarrow>
          Inr ((),
            case object of
              PackObj k \<Rightarrow>
                map_package k (\<lambda>pack. pack\<lparr>states :=
                  push_copy (\<lambda>prevState.
                     \<lparr>is_valid = is_valid prevState, level = 0,
                      trans_var_num = trans_var_num prevState\<rparr>) (states pack)\<rparr>) s
            | VarObj vp \<Rightarrow>
                map_variable vp (\<lambda>var. var\<lparr>states :=
                  push_copy (\<lambda>prevState.
                     (copyValue prevState zero_VarState var)\<lparr>is_valid := is_valid prevState\<rparr>)
                    (states var)\<rparr>) s))"

definition dec_head_level :: "objptr \<Rightarrow> pgv \<Rightarrow> pgv" where
  "dec_head_level object s =
     (case object of
        PackObj k \<Rightarrow> map_package k (\<lambda>pack. pack\<lparr>states := map_head (\<lambda>st. st\<lparr>level := level st - 1\<rparr>) (states pack)\<rparr>) s
      | VarObj vp \<Rightarrow> map_variable vp (\<lambda>var. var\<lparr>states := map_head (\<lambda>st. st\<lparr>level := level st - 1\<rparr>) (states var)\<rparr>) s)"

text \<open>
  \<open>rollbackSavepoint\<close>.  The flag \<open>sub\<close> is only read in the build with autonomous
  transactions.
\<close>

definition rollbackSavepoint :: "objptr \<Rightarrow> bool \<Rightarrow> pgv \<Rightarrow> unit res" where
  "rollbackSavepoint object sub s =
     (if obj_states s object = [] then removeObject object s
      else
        (let s1 = removeState object 0 s in
         case object of
           PackObj k \<Rightarrow>
             if obj_states s1 object = [] then
               (case find_package s1 k of
                  None \<Rightarrow> Inl (Fault, s1)
                | Some pack \<Rightarrow>
                    if numOfRegVars pack > 0 then
                      bnd (changesStack_is_empty
                             (set_head_level object (GetCurrentTransactionNestLevel s1 - 1)
                                (initObjectHistory object s1)))
                        (\<lambda>empty s2.
                           if \<not> empty then addToChangesStackUpperLevel object s2
                           else Inr ((), s2))
                    else removeObject object s1)
             else
               bnd (isPackageEmpty k s1) (\<lambda>empty s2.
                 if \<not> empty then Inr ((), s2)
                 else
                   bnd (changesStack_is_empty s2) (\<lambda>cs_empty s3.
                     if cs_empty then removeObject object s3
                     else
                       bnd (isObjectChangedInUpperTrans object s3) (\<lambda>upper s4.
                         bnd (if \<not> upper \<and> \<not> cs_empty then
                                bnd (createSavepoint object s4) (\<lambda>_ s5.
                                  bnd (addToChangesStackUpperLevel object s5) (\<lambda>_ s6.
                                    Inr ((), set_head_level object
                                               (GetCurrentTransactionNestLevel s6 - 1) s6)))
                              else Inr ((), s4))
                           (\<lambda>_ s7. Inr ((), set_head_valid object False s7)))))
         | VarObj vp \<Rightarrow>
             if obj_states s1 object = [] then removeObject object s1 else Inr ((), s1)))"

text \<open>
  \<open>releaseSavepoint\<close>.  When the object counts as changed in the upper transaction
  the node after the head is removed; with a single state that node is the list
  head itself, which is a fault.
\<close>

definition releaseSavepoint :: "objptr \<Rightarrow> bool \<Rightarrow> pgv \<Rightarrow> unit res" where
  "releaseSavepoint object sub s =
     (case obj_states s object of
        [] \<Rightarrow> Inl (Fault, s)
      | st # rest \<Rightarrow>
          bnd (if \<not> is_valid st
               then (if rest = [] then Inr (True, s) else changesStack_is_empty s)
               else Inr (False, s))
            (\<lambda>remove s1.
               if remove then removeObject object s1
               else
                 bnd (isObjectChangedInUpperTrans object s1) (\<lambda>upper s2.
                   bnd (if upper then
                          (if rest = [] then Inl (Fault, s2)
                           else Inr ((), removeState object 1 s2))
                        else
                          bnd (changesStack_is_empty s2) (\<lambda>empty s3.
                            if \<not> empty then addToChangesStackUpperLevel object s3
                            else Inr ((), s3)))
                     (\<lambda>_ s4. Inr ((), dec_head_level object s4)))))"

datatype Action = RELEASE_SAVEPOINT | ROLLBACK_TO_SAVEPOINT

text \<open>The body of the loop of \<open>applyAction\<close> for one changed object.\<close>

definition applyAction_step :: "Action \<Rightarrow> objptr \<Rightarrow> bool \<Rightarrow> pgv \<Rightarrow> unit res" where
  "applyAction_step action object sub s =
     (case action of
        ROLLBACK_TO_SAVEPOINT \<Rightarrow> rollbackSavepoint object sub s
      | RELEASE_SAVEPOINT \<Rightarrow>
          bnd (case object of
                 VarObj (pk, tr, vk) \<Rightarrow>
                   bnd (GetActualState (PackObj pk) s) (\<lambda>pst s1.
                     if \<not> is_valid pst then
                       bnd (GetActualState object s1) (\<lambda>_ s2.
                         Inr ((), set_head_valid object False s2))
                     else Inr ((), s1))
               | PackObj _ \<Rightarrow> Inr ((), s))
            (\<lambda>_. releaseSavepoint object sub))"

fun applyAction :: "Action \<Rightarrow> objptr list \<Rightarrow> bool \<Rightarrow> pgv \<Rightarrow> unit res" where
  "applyAction action [] sub s = Inr ((), s)"
| "applyAction action (object # rest) sub s =
     (case applyAction_step action object sub s of
        Inl e \<Rightarrow> Inl e
      | Inr (u, s1) \<Rightarrow> applyAction action rest sub s1)"

definition processChanges :: "Action \<Rightarrow> bool \<Rightarrow> pgv \<Rightarrow> unit res" where
  "processChanges action sub s =
     (case changesStack s of
        None \<Rightarrow> Inl (Fault, s)
      | Some [] \<Rightarrow> Inl (Fault, s)
      | Some (bottom_list # rest) \<Rightarrow>
          bnd (applyAction action (map VarObj (changedVarsList bottom_list)) sub
                 (s\<lparr>changesStack := Some rest\<rparr>)) (\<lambda>_ s1.
          bnd (applyAction action (map PackObj (changedPacksList bottom_list)) sub s1) (\<lambda>_ s2.
          bnd (changesStack_is_empty s2) (\<lambda>empty s3.
            let s4 = (if empty then s3\<lparr>changesStack := None\<rparr> else s3) in
            case packagesHash s4 of
              None \<Rightarrow> Inl (Fault, s4)
            | Some h \<Rightarrow>
                if h = [] then
                  Inr ((), (resetVariablesCache (s4\<lparr>packagesHash := None\<rparr>))\<lparr>changesStack := None\<rparr>)
                else Inr ((), s4)))))"

section \<open>Transaction callbacks\<close>

datatype SubXactEvent =
    SUBXACT_EVENT_START_SUB
  | SUBXACT_EVENT_COMMIT_SUB
  | SUBXACT_EVENT_ABORT_SUB
  | SUBXACT_EVENT_PRE_COMMIT_SUB

datatype XactEvent =
    XACT_EVENT_COMMIT
  | XACT_EVENT_PARALLEL_COMMIT
  | XACT_EVENT_ABORT
  | XACT_EVENT_PARALLEL_ABORT
  | XACT_EVENT_PREPARE
  | XACT_EVENT_PRE_COMMIT
  | XACT_EVENT_PARALLEL_PRE_COMMIT
  | XACT_EVENT_PRE_PREPARE

definition pgvSubTransCallback :: "SubXactEvent \<Rightarrow> pgv \<Rightarrow> unit res" where
  "pgvSubTransCallback event s =
     bnd (if changesStack s \<noteq> None then
            (case event of
               SUBXACT_EVENT_START_SUB \<Rightarrow> Inr ((), pushChangesStack s)
             | SUBXACT_EVENT_COMMIT_SUB \<Rightarrow> processChanges RELEASE_SAVEPOINT True s
             | SUBXACT_EVENT_ABORT_SUB \<Rightarrow> processChanges ROLLBACK_TO_SAVEPOINT True s
             | SUBXACT_EVENT_PRE_COMMIT_SUB \<Rightarrow> Inr ((), s))
          else Inr ((), s))
       (\<lambda>_ s1.
          Inr ((), remove_packages_level (GetCurrentTransactionNestLevel s1)
                     (remove_variables_level (GetCurrentTransactionNestLevel s1) s1)))"

definition pgvTransCallback :: "XactEvent \<Rightarrow> pgv \<Rightarrow> unit res" where
  "pgvTransCallback event s =
     bnd (if changesStack s \<noteq> None then
            (case event of
               XACT_EVENT_PRE_COMMIT \<Rightarrow> processChanges RELEASE_SAVEPOINT False s
             | XACT_EVENT_ABORT \<Rightarrow> processChanges ROLLBACK_TO_SAVEPOINT False s
             | XACT_EVENT_PARALLEL_PRE_COMMIT \<Rightarrow> processChanges RELEASE_SAVEPOINT False s
             | XACT_EVENT_PARALLEL_ABORT \<Rightarrow> processChanges ROLLBACK_TO_SAVEPOINT False s
             | _ \<Rightarrow> Inr ((), s))
          else Inr ((), s))
       (\<lambda>_ s1.
          if event = XACT_EVENT_PRE_COMMIT \<or> event = XACT_EVENT_ABORT
          then Inr ((), freeStatsLists s1) else Inr ((), s1))"

text \<open>
  The executor-end hook: after the executor of the host has run, the registry is
  emptied.
\<close>

definition variable_ExecutorEnd :: "pgv \<Rightarrow> pgv" where
  "variable_ExecutorEnd s = freeStatsLists s"

section \<open>Packages and variables\<close>

definition ensurePackagesHashExists :: "pgv \<Rightarrow> pgv" where
  "ensurePackagesHashExists s =
     (case packagesHash s of Some _ \<Rightarrow> s | None \<Rightarrow> s\<lparr>packagesHash := Some []\<rparr>)"

definition makePackHTAB :: "key \<Rightarrow> bool \<Rightarrow> pgv \<Rightarrow> pgv" where
  "makePackHTAB k is_trans s = map_package k (map_htab is_trans (\<lambda>_. Some [])) s"

text \<open>
  \<open>hash_search\<close> with \<open>HASH_ENTER\<close> for a key that is not in the table: the new entry
  is visited last by a scan.
\<close>

definition hash_enter_package :: "key \<Rightarrow> Package \<Rightarrow> pgv \<Rightarrow> pgv" where
  "hash_enter_package k pack s =
     s\<lparr>packagesHash := map_option (AList.update k pack) (packagesHash s)\<rparr>"

definition hash_enter_variable :: "varptr \<Rightarrow> Variable \<Rightarrow> pgv \<Rightarrow> pgv" where
  "hash_enter_variable vp var s =
     (case vp of (pk, tr, vk) \<Rightarrow>
        map_package pk (map_htab tr (map_option (AList.update vk var))) s)"

definition getPackage :: "string \<Rightarrow> bool \<Rightarrow> pgv \<Rightarrow> key option res" where
  "getPackage nm strict s =
     (case getKeyFromName nm of
        Inl e \<Rightarrow> Inl (e, s)
      | Inr key \<Rightarrow>
          bnd (case find_package s key of
                 None \<Rightarrow> Inr (False, s)
               | Some pack \<Rightarrow>
                   bnd (GetActualState (PackObj key) s) (\<lambda>st s1. Inr (is_valid st, s1)))
            (\<lambda>found_valid s1.
               if found_valid then Inr (Some key, s1)
               else if strict then Inl (UnknownPackage, s1)
               else Inr (None, s1)))"

text \<open>The loop of \<open>createPackage\<close> over the transactional variables of the package.\<close>

definition createPackage_step :: "key \<Rightarrow> key \<Rightarrow> pgv \<Rightarrow> unit res" where
  "createPackage_step pk vk s =
     bnd (isObjectChangedInCurrentTrans (VarObj (pk, True, vk)) s) (\<lambda>changed s1.
     bnd (if \<not> changed then
            bnd (createSavepoint (VarObj (pk, True, vk)) s1)
              (\<lambda>_. addToChangesStack (VarObj (pk, True, vk)))
          else Inr ((), s1)) (\<lambda>_ s2.
     bnd (GetActualState (VarObj (pk, True, vk)) s2) (\<lambda>_ s3.
     Inr ((), set_head_valid (VarObj (pk, True, vk)) False s3))))"

fun createPackage_loop :: "key \<Rightarrow> key list \<Rightarrow> pgv \<Rightarrow> unit res" where
  "createPackage_loop pk [] s = Inr ((), s)"
| "createPackage_loop pk (vk # rest) s =
     (case createPackage_step pk vk s of
        Inl e \<Rightarrow> Inl e
      | Inr (u, s1) \<Rightarrow> createPackage_loop pk rest s1)"

definition createPackage :: "string \<Rightarrow> bool \<Rightarrow> pgv \<Rightarrow> key res" where
  "createPackage nm is_trans s =
     (case getKeyFromName nm of
        Inl e \<Rightarrow> Inl (e, s)
      | Inr key \<Rightarrow>
          bnd (case find_package (ensurePackagesHashExists s) key of
                 Some pack \<Rightarrow>
                   bnd (isObjectChangedInCurrentTrans (PackObj key) (ensurePackagesHashExists s))
                     (\<lambda>changed s1.
                   bnd (if \<not> changed then createSavepoint (PackObj key) s1 else Inr ((), s1))
                     (\<lambda>_ s2.
                   bnd (GetActualState (PackObj key) s2) (\<lambda>st s3.
                     if \<not> is_valid st then
                       (case varHashTransact pack of
                          Some h \<Rightarrow>
                            createPackage_loop key (map fst h)
                              (set_head_valid (PackObj key) True s3)
                        | None \<Rightarrow> Inr ((), set_head_valid (PackObj key) True s3))
                     else Inr ((), s3))))
               | None \<Rightarrow>
                   Inr ((), initObjectHistory (PackObj key)
                              (hash_enter_package key
                                 \<lparr>name = key, states = [],
                                  varHashRegular = None, varHashTransact = None\<rparr>
                                 (ensurePackagesHashExists s))))
            (\<lambda>_ s5.
               bnd (case find_package s5 key of
                      None \<Rightarrow> Inl (Fault, s5)
                    | Some pack \<Rightarrow>
                        Inr ((), if pack_htab pack is_trans = None
                                 then makePackHTAB key is_trans s5 else s5))
                 (\<lambda>_ s6.
                    bnd (isObjectChangedInCurrentTrans (PackObj key) s6) (\<lambda>changed s7.
                    bnd (if \<not> changed then addToChangesStack (PackObj key) s7
                         else Inr ((), s7)) (\<lambda>_ s8.
                    Inr (key, s8))))))"

text \<open>
  \<open>getVariableInternal\<close>: the regular table is searched first, then the
  transactional one.
\<close>

definition lookup_variable :: "key \<Rightarrow> Package \<Rightarrow> key \<Rightarrow> (varptr \<times> Variable) option" where
  "lookup_variable pk pack key =
     (case (case varHashRegular pack of Some h \<Rightarrow> map_of h key | None \<Rightarrow> None) of
        Some var \<Rightarrow> Some ((pk, False, key), var)
      | None \<Rightarrow>
          (case varHashTransact pack of
             Some h \<Rightarrow> map_option (\<lambda>var. ((pk, True, key), var)) (map_of h key)
           | None \<Rightarrow> None))"

definition getVariableInternal ::
  "key \<Rightarrow> string \<Rightarrow> Oid \<Rightarrow> bool \<Rightarrow> bool \<Rightarrow> pgv \<Rightarrow> varptr option res" where
  "getVariableInternal pk nm typ is_rec strict s =
     (case getKeyFromName nm of
        Inl e \<Rightarrow> Inl (e, s)
      | Inr key \<Rightarrow>
          (case find_package s pk of
             None \<Rightarrow> Inl (Fault, s)
           | Some pack \<Rightarrow>
               (case lookup_variable pk pack key of
                  Some (vp, var) \<Rightarrow>
                    if typ \<noteq> InvalidOid \<and> typid var \<noteq> typ then Inl (TypeMismatch, s)
                    else if typ \<noteq> InvalidOid \<and> is_record var \<noteq> is_rec then Inl (KindMismatch, s)
                    else
                      bnd (GetActualState (VarObj vp) s) (\<lambda>st s1.
                        if \<not> is_valid st \<and> strict then Inl (UnknownVariable, s1)
                        else Inr (Some vp, s1))
                | None \<Rightarrow>
                    if strict then Inl (UnknownVariable, s) else Inr (None, s))))"

text \<open>An update of the counter in the actual state of a package.\<close>

definition upd_trans_var_num :: "key \<Rightarrow> (int \<Rightarrow> int) \<Rightarrow> pgv \<Rightarrow> unit res" where
  "upd_trans_var_num k f s =
     bnd (GetActualState (PackObj k) s) (\<lambda>_ s1.
       Inr ((), map_package k (\<lambda>pack. pack\<lparr>states :=
                  map_head (\<lambda>st. st\<lparr>trans_var_num := f (trans_var_num st)\<rparr>) (states pack)\<rparr>) s1))"

definition createVariableInternal ::
  "key \<Rightarrow> string \<Rightarrow> Oid \<Rightarrow> bool \<Rightarrow> bool \<Rightarrow> pgv \<Rightarrow> varptr res" where
  "createVariableInternal pk nm typ is_rec is_trans s =
     (case getKeyFromName nm of
        Inl e \<Rightarrow> Inl (e, s)
      | Inr key \<Rightarrow>
          (case find_package s pk of
             None \<Rightarrow> Inl (Fault, s)
           | Some pack \<Rightarrow>
               if (case pack_htab pack (\<not> is_trans) of
                     Some h \<Rightarrow> map_of h key \<noteq> None | None \<Rightarrow> False)
               then Inl (TransactionalityConflict, s)
               else
                 (case pack_htab pack is_trans of
                    None \<Rightarrow> Inl (Fault, s)
                  | Some h \<Rightarrow>
                      bnd (case map_of h key of
                             Some var \<Rightarrow>
                               if typid var \<noteq> typ then Inl (TypeMismatch, s)
                               else if is_record var \<noteq> is_rec then Inl (KindMismatch, s)
                               else if is_trans then
                                 bnd (isObjectChangedInCurrentTrans (VarObj (pk, is_trans, key)) s)
                                   (\<lambda>changed s1.
                                      if \<not> changed
                                      then createSavepoint (VarObj (pk, is_trans, key)) s1
                                      else Inr ((), s1))
                               else Inr ((), s)
                           | None \<Rightarrow>
                               bnd (isObjectChangedInCurrentTrans (PackObj pk)
                                      (initObjectHistory (VarObj (pk, is_trans, key))
                                         (hash_enter_variable (pk, is_trans, key)
                                            \<lparr>name = key, states = [], package = pk, typid = typ,
                                             is_record = is_rec, is_transactional = is_trans,
                                             is_deleted = False\<rparr> s)))
                                 (\<lambda>changed s2.
                                    if \<not> changed then
                                      bnd (createSavepoint (PackObj pk) s2)
                                        (\<lambda>_. addToChangesStack (PackObj pk))
                                    else Inr ((), s2)))
                        (\<lambda>_ s3.
                           bnd (GetActualState (VarObj (pk, is_trans, key)) s3) (\<lambda>st s4.
                           bnd (if is_trans \<and> (map_of h key = None \<or> \<not> is_valid st)
                                then upd_trans_var_num pk (\<lambda>n. n + 1) s4
                                else Inr ((), s4)) (\<lambda>_ s5.
                           bnd (if is_trans
                                then addToChangesStack (VarObj (pk, is_trans, key))
                                       (set_head_valid (VarObj (pk, is_trans, key)) True s5)
                                else Inr ((), set_head_valid (VarObj (pk, is_trans, key)) True s5))
                             (\<lambda>_ s7. Inr ((pk, is_trans, key), s7))))))))"

section \<open>Scalar variables\<close>

definition set_scalar :: "varptr \<Rightarrow> ScalarVar \<Rightarrow> pgv \<Rightarrow> pgv" where
  "set_scalar vp sc s =
     map_variable vp (\<lambda>var. var\<lparr>states := map_head (\<lambda>st. st\<lparr>scalar := sc\<rparr>) (states var)\<rparr>) s"

definition GetActualValue_scalar :: "varptr \<Rightarrow> pgv \<Rightarrow> ScalarVar res" where
  "GetActualValue_scalar vp s =
     (case find_variable s vp of
        None \<Rightarrow> Inl (Fault, s)
      | Some var \<Rightarrow> (case states var of [] \<Rightarrow> Inl (Fault, s) | st # _ \<Rightarrow> Inr (scalar st, s)))"

definition variable_set ::
  "string \<Rightarrow> string \<Rightarrow> Oid \<Rightarrow> Datum \<Rightarrow> bool \<Rightarrow> bool \<Rightarrow> pgv \<Rightarrow> unit res" where
  "variable_set package_name var_name typ v isnull is_trans s =
     bnd (createPackage package_name is_trans s) (\<lambda>pk s1.
     bnd (createVariableInternal pk var_name typ False is_trans s1) (\<lambda>vp s2.
     bnd (GetActualValue_scalar vp s2) (\<lambda>sc s3.
       Inr ((), set_scalar vp
                  (if \<not> isnull then sc\<lparr>is_null := isnull, datum_value := datumCopy v\<rparr>
                   else sc\<lparr>is_null := isnull, datum_value := 0\<rparr>) s3))))"

text \<open>\<open>variable_get\<close> returns the datum and the null flag.\<close>

definition variable_get ::
  "string \<Rightarrow> string \<Rightarrow> Oid \<Rightarrow> bool \<Rightarrow> pgv \<Rightarrow> (Datum \<times> bool) res" where
  "variable_get package_name var_name typ strict s =
     bnd (getPackage package_name strict s) (\<lambda>package s1.
       case package of
         None \<Rightarrow> Inr ((0, True), s1)
       | Some pk \<Rightarrow>
           bnd (getVariableInternal pk var_name typ False strict s1) (\<lambda>variable s2.
             case variable of
               None \<Rightarrow> Inr ((0, True), s2)
             | Some vp \<Rightarrow>
                 bnd (GetActualValue_scalar vp s2) (\<lambda>sc s3.
                   Inr ((datum_value sc, is_null sc), s3))))"

section \<open>Removal\<close>

definition removePackageInternal_step :: "varptr \<Rightarrow> pgv \<Rightarrow> unit res" where
  "removePackageInternal_step vp s =
     bnd (GetActualState (VarObj vp) s) (\<lambda>st s1.
       Inr ((), if is_valid st then map_variable vp (\<lambda>var. var\<lparr>is_deleted := True\<rparr>) s1
                else s1))"

fun removePackageInternal_loop :: "varptr list \<Rightarrow> pgv \<Rightarrow> unit res" where
  "removePackageInternal_loop [] s = Inr ((), s)"
| "removePackageInternal_loop (vp # rest) s =
     (case removePackageInternal_step vp s of
        Inl e \<Rightarrow> Inl e
      | Inr (u, s1) \<Rightarrow> removePackageInternal_loop rest s1)"

definition htab_keys :: "(key \<times> Variable) list option \<Rightarrow> key list" where
  "htab_keys htab = (case htab of None \<Rightarrow> [] | Some h \<Rightarrow> map fst h)"

definition removePackageInternal :: "key \<Rightarrow> pgv \<Rightarrow> unit res" where
  "removePackageInternal pk s =
     (case find_package s pk of
        None \<Rightarrow> Inl (Fault, s)
      | Some pack \<Rightarrow>
          bnd (removePackageInternal_loop
                 (map (\<lambda>vk. (pk, False, vk)) (htab_keys (pack_htab pack False))) s) (\<lambda>_ s1.
          bnd (removePackageInternal_loop
                 (map (\<lambda>vk. (pk, True, vk)) (htab_keys (pack_htab pack True))) s1) (\<lambda>_ s2.
          bnd (isObjectChangedInCurrentTrans (PackObj pk)
                 (map_package pk (\<lambda>pack. pack\<lparr>varHashRegular := None\<rparr>) s2)) (\<lambda>changed s4.
          bnd (if \<not> changed then
                 bnd (createSavepoint (PackObj pk) s4) (\<lambda>_. addToChangesStack (PackObj pk))
               else Inr ((), s4)) (\<lambda>_ s5.
          bnd (GetActualState (PackObj pk) s5) (\<lambda>_ s6.
          upd_trans_var_num pk (\<lambda>_. 0) (set_head_valid (PackObj pk) False s6)))))))"

definition remove_package :: "string \<Rightarrow> pgv \<Rightarrow> unit res" where
  "remove_package package_name s =
     bnd (getPackage package_name True s) (\<lambda>package s1.
       case package of
         None \<Rightarrow> Inl (Fault, s1)
       | Some pk \<Rightarrow>
           bnd (removePackageInternal pk (remove_variables_package pk s1)) (\<lambda>_ s2.
             Inr ((), resetVariablesCache s2)))"

definition remove_variable :: "string \<Rightarrow> string \<Rightarrow> pgv \<Rightarrow> unit res" where
  "remove_variable package_name var_name s =
     bnd (getPackage package_name True s) (\<lambda>package s1.
       case package of
         None \<Rightarrow> Inl (Fault, s1)
       | Some pk \<Rightarrow>
     bnd (getVariableInternal pk var_name InvalidOid False True s1) (\<lambda>variable s2.
       case variable of
         None \<Rightarrow> Inl (Fault, s2)
       | Some vp \<Rightarrow>
     bnd (isObjectChangedInCurrentTrans (PackObj pk) s2) (\<lambda>changed s3.
     bnd (if \<not> changed then
            bnd (createSavepoint (PackObj pk) s3) (\<lambda>_. addToChangesStack (PackObj pk))
          else Inr ((), s3)) (\<lambda>_ s4.
     bnd (case find_variable s4 vp of
            None \<Rightarrow> Inl (Fault, s4)
          | Some var \<Rightarrow>
              if is_transactional var then
                bnd (isObjectChangedInCurrentTrans (VarObj vp) s4) (\<lambda>changed s5.
                bnd (if \<not> changed then
                       bnd (createSavepoint (VarObj vp) s5) (\<lambda>_. addToChangesStack (VarObj vp))
                     else Inr ((), s5)) (\<lambda>_ s6.
                bnd (GetActualState (VarObj vp) s6) (\<lambda>_ s7.
                bnd (upd_trans_var_num pk (\<lambda>n. n - 1)
                       (set_head_valid (VarObj vp) False
                          (map_variable vp (\<lambda>var. var\<lparr>is_deleted := True\<rparr>) s7))) (\<lambda>_ s8.
                bnd (isPackageEmpty pk s8) (\<lambda>empty s9.
                  Inr ((), if empty then set_head_valid (PackObj pk) False s9 else s9))))))
              else removeObject (VarObj vp) s4) (\<lambda>_ s10.
       Inr ((), resetVariablesCache s10))))))"

fun remove_packages_loop :: "key list \<Rightarrow> pgv \<Rightarrow> unit res" where
  "remove_packages_loop [] s = Inr ((), s)"
| "remove_packages_loop (pk # rest) s =
     (case removePackageInternal pk s of
        Inl e \<Rightarrow> Inl e
      | Inr (u, s1) \<Rightarrow> remove_packages_loop rest s1)"

definition remove_packages :: "pgv \<Rightarrow> unit res" where
  "remove_packages s =
     (case packagesHash s of
        None \<Rightarrow> Inr ((), s)
      | Some h \<Rightarrow>
          bnd (remove_packages_loop (map fst h) (remove_variables_all s)) (\<lambda>_ s1.
            Inr ((), resetVariablesCache s1)))"

definition package_exists :: "string \<Rightarrow> pgv \<Rightarrow> bool res" where
  "package_exists package_name s =
     bnd (getPackage package_name False s) (\<lambda>package s1. Inr (package \<noteq> None, s1))"

definition variable_exists :: "string \<Rightarrow> string \<Rightarrow> pgv \<Rightarrow> bool res" where
  "variable_exists package_name var_name s =
     bnd (getPackage package_name False s) (\<lambda>package s1.
       case package of
         None \<Rightarrow> Inr (False, s1)
       | Some pk \<Rightarrow>
           (case getKeyFromName var_name of
              Inl e \<Rightarrow> Inl (e, s1)
            | Inr key \<Rightarrow>
                (case find_package s1 pk of
                   None \<Rightarrow> Inl (Fault, s1)
                 | Some pack \<Rightarrow>
                     (case lookup_variable pk pack key of
                        None \<Rightarrow> Inr (False, s1)
                      | Some (vp, var) \<Rightarrow>
                          bnd (GetActualState (VarObj vp) s1) (\<lambda>st s2.
                            Inr (is_valid st, s2))))))"

section \<open>The host's transaction events\<close>

text \<open>
  The host raises the nesting level before it reports the start of a
  sub-transaction, and lowers it after it has reported its commit or abort; the
  top-level transaction runs at level 1.
\<close>

definition host_savepoint :: "pgv \<Rightarrow> unit res" where
  "host_savepoint s = pgvSubTransCallback SUBXACT_EVENT_START_SUB (s\<lparr>nestLevel := nestLevel s + 1\<rparr>)"

definition host_release :: "pgv \<Rightarrow> unit res" where
  "host_release s =
     bnd (pgvSubTransCallback SUBXACT_EVENT_COMMIT_SUB s) (\<lambda>_ s1.
       Inr ((), s1\<lparr>nestLevel := nestLevel s1 - 1\<rparr>))"


definition host_commit :: "pgv \<Rightarrow> unit res" where
  "host_commit s =
     bnd (pgvTransCallback XACT_EVENT_PRE_COMMIT s) (\<lambda>_ s1.
       pgvTransCallback XACT_EVENT_COMMIT s1)"

text \<open>A session in which nothing was stored yet, inside its first transaction.\<close>

definition fresh_session :: pgv where
  "fresh_session =
     \<lparr>packagesHash = None, changesStack = None, variables_stats = [], packages_stats = [],
      LastPackage = None, LastVariable = None, nestLevel = 1, seq_scans = [], fctx_cells = []\<rparr>"

section \<open>Observations of the store\<close>

text \<open>
  What the statements below say about a store is said through these functions: the
  states of a package and of a variable (empty when the object is not in the
  store), the keys of a table of a package in the order of a scan, and whether the
  actual state of an object is valid.
\<close>

definition pstates :: "pgv \<Rightarrow> key \<Rightarrow> PackState list" where
  "pstates s k = (case find_package s k of None \<Rightarrow> [] | Some pack \<Rightarrow> states pack)"

definition vstates :: "pgv \<Rightarrow> varptr \<Rightarrow> VarState list" where
  "vstates s vp = (case find_variable s vp of None \<Rightarrow> [] | Some var \<Rightarrow> states var)"

definition tab_keys :: "pgv \<Rightarrow> key \<Rightarrow> bool \<Rightarrow> key list option" where
  "tab_keys s k tr =
     (case find_package s k of None \<Rightarrow> None
      | Some pack \<Rightarrow> map_option (map fst) (pack_htab pack tr))"

definition head_valid :: "pgv \<Rightarrow> objptr \<Rightarrow> bool" where
  "head_valid s object = (case obj_states s object of [] \<Rightarrow> False | st # _ \<Rightarrow> is_valid st)"

definition pack_present :: "pgv \<Rightarrow> key \<Rightarrow> bool" where
  "pack_present s k = (find_package s k \<noteq> None)"

text \<open>Every step that rewrites the states of one object is one of these two.\<close>

definition map_pstates :: "key \<Rightarrow> (PackState list \<Rightarrow> PackState list) \<Rightarrow> pgv \<Rightarrow> pgv" where
  "map_pstates k g s = map_package k (\<lambda>pack. pack\<lparr>states := g (states pack)\<rparr>) s"

definition map_vstates ::
  "varptr \<Rightarrow> (Variable \<Rightarrow> VarState list \<Rightarrow> VarState list) \<Rightarrow> pgv \<Rightarrow> pgv" where
  "map_vstates vp g s = map_variable vp (\<lambda>var. var\<lparr>states := g var (states var)\<rparr>) s"


definition num_reg :: "pgv \<Rightarrow> key \<Rightarrow> int" where
  "num_reg s k = (case tab_keys s k False of Some ks \<Rightarrow> int (length ks) | None \<Rightarrow> 0)"

definition key_of :: "string \<Rightarrow> key" where
  "key_of nm = takeWhile (\<lambda>c. c \<noteq> CHR 0x00) nm"

section \<open>Scenarios and example stores\<close>

text \<open>
  The scenario "commit folds across two levels": a transactional variable is set at
  top level, set again under a savepoint, the savepoint is released and the
  transaction commits.
\<close>

definition commit_fold :: "string \<Rightarrow> string \<Rightarrow> Oid \<Rightarrow> Datum \<Rightarrow> Datum \<Rightarrow> unit res" where
  "commit_fold p v T x1 x2 =
     bnd (variable_set p v T x1 False True fresh_session) (\<lambda>_ s1.
     bnd (host_savepoint s1) (\<lambda>_ s2.
     bnd (variable_set p v T x2 False True s2) (\<lambda>_ s3.
     bnd (host_release s3) (\<lambda>_ s4.
     host_commit s4))))"

text \<open>
  The store of a session after \<open>set('p', 'x', 1, true)\<close> in its first transaction,
  which is still open.
\<close>

definition ex_tx :: pgv where
  "ex_tx =
     \<lparr>packagesHash = Some [(''p'',
         \<lparr>name = ''p'', states = [\<lparr>is_valid = True, level = 1, trans_var_num = 1\<rparr>],
          varHashRegular = None,
          varHashTransact = Some [(''x'',
            \<lparr>name = ''x'',
             states = [\<lparr>is_valid = True, level = 1,
                        scalar = \<lparr>datum_value = 1, is_null = False\<rparr>,
                        recordv = \<lparr>tupdesc = None, rhash = []\<rparr>\<rparr>],
             package = ''p'', typid = 23, is_record = False,
             is_transactional = True, is_deleted = False\<rparr>)]\<rparr>)],
      changesStack = Some [\<lparr>changedVarsList = [(''p'', True, ''x'')], changedPacksList = [''p'']\<rparr>],
      variables_stats = [], packages_stats = [], LastPackage = None, LastVariable = None,
      nestLevel = 1, seq_scans = [], fctx_cells = []\<rparr>"

text \<open>
  A package created under a savepoint (nesting level 2) that holds one regular
  variable, at the moment its only state is rolled back: the frame of the
  sub-transaction has been popped and the frame of the parent is left.
\<close>

definition ex_regular :: pgv where
  "ex_regular =
     \<lparr>packagesHash = Some [(''p'',
         \<lparr>name = ''p'', states = [\<lparr>is_valid = True, level = 2, trans_var_num = 0\<rparr>],
          varHashRegular = Some [(''r'',
            \<lparr>name = ''r'',
             states = [\<lparr>is_valid = True, level = 0,
                        scalar = \<lparr>datum_value = 1, is_null = False\<rparr>,
                        recordv = \<lparr>tupdesc = None, rhash = []\<rparr>\<rparr>],
             package = ''p'', typid = 23, is_record = False,
             is_transactional = False, is_deleted = False\<rparr>)],
          varHashTransact = None\<rparr>)],
      changesStack = Some [\<lparr>changedVarsList = [], changedPacksList = []\<rparr>],
      variables_stats = [], packages_stats = [], LastPackage = None, LastVariable = None,
      nestLevel = 2, seq_scans = [], fctx_cells = []\<rparr>"

subsection \<open>Further example stores\<close>

text \<open>
  The store inside a subtransaction (level 2) in which both the package \<open>p\<close> and its
  transactional variable \<open>x\<close> were changed at level 1 and again at level 2.
\<close>

definition ex_release :: pgv where
  "ex_release =
     \<lparr>packagesHash = Some [(''p'',
         \<lparr>name = ''p'', states = [\<lparr>is_valid = True, level = 2, trans_var_num = 1\<rparr>,
                                    \<lparr>is_valid = True, level = 1, trans_var_num = 1\<rparr>],
          varHashRegular = None,
          varHashTransact = Some [(''x'',
            \<lparr>name = ''x'',
             states = [\<lparr>is_valid = True, level = 2,
                        scalar = \<lparr>datum_value = 2, is_null = False\<rparr>,
                        recordv = \<lparr>tupdesc = None, rhash = []\<rparr>\<rparr>,
                       \<lparr>is_valid = True, level = 1,
                        scalar = \<lparr>datum_value = 1, is_null = False\<rparr>,
                        recordv = \<lparr>tupdesc = None, rhash = []\<rparr>\<rparr>],
             package = ''p'', typid = 23, is_record = False,
             is_transactional = True, is_deleted = False\<rparr>)]\<rparr>)],
      changesStack = Some [\<lparr>changedVarsList = [(''p'', True, ''x'')], changedPacksList = [''p'']\<rparr>],
      variables_stats = [], packages_stats = [], LastPackage = None, LastVariable = None,
      nestLevel = 2, seq_scans = [], fctx_cells = []\<rparr>"

text \<open>
  The store \<open>ex_tx\<close> with one open scan over the variable \<open>x\<close> and one open scan over
  the packages; the consumers' back-pointers live in the cells 0 and 1.
\<close>

definition ex_scan :: pgv where
  "ex_scan =
     ex_tx\<lparr>variables_stats :=
              [\<lparr>status = 7, variable = (''p'', True, ''x''), entry_package = ''p'', levels = 1,
                user_fctx = Some 0\<rparr>],
            packages_stats := [\<lparr>pstatus = 8, plevels = 1, puser_fctx = Some 1\<rparr>],
            seq_scans := [8, 7],
            fctx_cells := [(0, Some 7), (1, Some 8)]\<rparr>"

text \<open>
  A package with two transactional variables, both set at top level, after the first of
  them has been set again under a savepoint; and the scenario in which both are set again under
  the savepoint and the package is then removed under that savepoint.
\<close>

definition two_vars_scenario :: "unit res" where
  "two_vars_scenario =
     bnd (variable_set ''p'' ''v'' 23 1 False True fresh_session) (\<lambda>_ s1.
     bnd (variable_set ''p'' ''u'' 23 7 False True s1) (\<lambda>_ s2.
     bnd (host_savepoint s2) (\<lambda>_.
     variable_set ''p'' ''v'' 23 2 False True)))"

definition removed_scenario :: "unit res" where
  "removed_scenario =
     bnd (variable_set ''p'' ''v'' 23 1 False True fresh_session) (\<lambda>_ s1.
     bnd (variable_set ''p'' ''u'' 23 7 False True s1) (\<lambda>_ s2.
     bnd (host_savepoint s2) (\<lambda>_ s3.
     bnd (variable_set ''p'' ''v'' 23 2 False True s3) (\<lambda>_ s4.
     bnd (variable_set ''p'' ''u'' 23 8 False True s4) (\<lambda>_ s5.
     remove_package ''p'' s5)))))"

text \<open>
  A package with one transactional variable that is removed in the transaction that created
  it; and the same store after a savepoint has been set.
\<close>

definition removed_same_level :: "unit res" where
  "removed_same_level =
     bnd (variable_set ''p'' ''t'' 23 1 False True fresh_session) (\<lambda>_. remove_package ''p'')"

definition removed_under_savepoint :: "unit res" where
  "removed_under_savepoint = bnd removed_same_level (\<lambda>_. host_savepoint)"

section \<open>Closed forms of the steps\<close>

text \<open>
  The definitions of this section are not translations of functions of the
  source.  They name the store that a group of statements of the source leaves
  behind, in terms of the observations, so that the statements proved below can
  say what a call has done to the store.  Each of them is tied to the translated
  function by a lemma.
\<close>

definition empty_frame :: ChangesStackNode where
  "empty_frame = \<lparr>changedVarsList = [], changedPacksList = []\<rparr>"

definition frames :: "pgv \<Rightarrow> ChangesStackNode list" where
  "frames s =
     (case changesStack s of
        Some fs \<Rightarrow> fs
      | None \<Rightarrow> replicate (nat (nestLevel s)) empty_frame)"

definition push_frame :: "objptr \<Rightarrow> pgv \<Rightarrow> pgv" where
  "push_frame object s =
     s\<lparr>changesStack := Some (push_changed object (hd (frames s)) # tl (frames s))\<rparr>"

definition prep :: "pgv \<Rightarrow> pgv" where
  "prep s = s\<lparr>changesStack := Some (frames s)\<rparr>"

definition vkind :: "pgv \<Rightarrow> varptr \<Rightarrow> (Oid \<times> bool) option" where
  "vkind s vp = map_option (\<lambda>var. (typid var, is_record var)) (find_variable s vp)"

definition vrec :: "pgv \<Rightarrow> varptr \<Rightarrow> bool" where
  "vrec s vp = (case find_variable s vp of Some var \<Rightarrow> is_record var | None \<Rightarrow> False)"

definition sv_state :: "bool \<Rightarrow> VarState \<Rightarrow> VarState" where
  "sv_state is_rec prevState =
     (if is_rec
      then zero_VarState\<lparr>recordv := \<lparr>tupdesc = tupdesc (recordv prevState),
                                      rhash = rhash (recordv prevState)\<rparr>\<rparr>
      else zero_VarState\<lparr>scalar :=
             (if \<not> is_null (scalar prevState) then scalar prevState
              else (scalar prevState)\<lparr>datum_value := 0\<rparr>)\<rparr>)\<lparr>is_valid := is_valid prevState\<rparr>"

definition savepoint :: "objptr \<Rightarrow> pgv \<Rightarrow> pgv" where
  "savepoint obj s =
     (case obj of
        PackObj k \<Rightarrow> map_pstates k (push_copy (\<lambda>st. st\<lparr>level := 0\<rparr>)) s
      | VarObj vp \<Rightarrow> map_vstates vp (\<lambda>var. push_copy (sv_state (is_record var))) s)"

definition obj_changed :: "pgv \<Rightarrow> objptr \<Rightarrow> bool" where
  "obj_changed s obj \<longleftrightarrow>
     changesStack s \<noteq> None \<and> obj_states s obj \<noteq> [] \<and>
     level (hd (obj_states s obj)) = nestLevel s"

definition touch :: "objptr \<Rightarrow> pgv \<Rightarrow> pgv" where
  "touch obj s =
     (if obj_changed s obj then s
      else set_head_level obj (nestLevel s) (push_frame obj (savepoint obj s)))"

definition inval_var :: "key \<Rightarrow> key \<Rightarrow> pgv \<Rightarrow> pgv" where
  "inval_var pk vk s =
     set_head_valid (VarObj (pk, True, vk)) False (touch (VarObj (pk, True, vk)) s)"

definition new_package :: "key \<Rightarrow> pgv \<Rightarrow> pgv" where
  "new_package key s =
     initObjectHistory (PackObj key)
       (hash_enter_package key
          \<lparr>name = key, states = [], varHashRegular = None, varHashTransact = None\<rparr>
          (ensurePackagesHashExists s))"

definition createPackage_found :: "key \<Rightarrow> pgv \<Rightarrow> unit res" where
  "createPackage_found key s =
     bnd (isObjectChangedInCurrentTrans (PackObj key) s) (\<lambda>changed s1.
     bnd (if \<not> changed then createSavepoint (PackObj key) s1 else Inr ((), s1)) (\<lambda>_ s2.
     bnd (GetActualState (PackObj key) s2) (\<lambda>st s3.
       if \<not> is_valid st then
         (case tab_keys s key True of
            Some ks \<Rightarrow> createPackage_loop key ks (set_head_valid (PackObj key) True s3)
          | None \<Rightarrow> Inr ((), set_head_valid (PackObj key) True s3))
       else Inr ((), s3))))"

definition createPackage_finish :: "key \<Rightarrow> bool \<Rightarrow> pgv \<Rightarrow> key res" where
  "createPackage_finish key is_trans s5 =
     (if \<not> pack_present s5 key then Inl (Fault, s5)
      else
        bnd (isObjectChangedInCurrentTrans (PackObj key)
               (if tab_keys s5 key is_trans = None then makePackHTAB key is_trans s5 else s5))
          (\<lambda>changed s7.
             bnd (if \<not> changed then addToChangesStack (PackObj key) s7 else Inr ((), s7))
               (\<lambda>_ s8. Inr (key, s8))))"

definition createPackage_effect :: "key \<Rightarrow> bool \<Rightarrow> pgv \<Rightarrow> pgv" where
  "createPackage_effect key is_trans s =
     (let s5 = (if pack_present s key then
                  (let s2 = (if obj_changed s (PackObj key) then s else savepoint (PackObj key) s)
                   in if is_valid (hd (pstates s key)) then s2
                      else fold (inval_var key)
                             (case tab_keys s key True of Some ks \<Rightarrow> ks | None \<Rightarrow> [])
                             (set_head_valid (PackObj key) True s2))
                else new_package key s);
          s6 = (if tab_keys s5 key is_trans = None then makePackHTAB key is_trans s5 else s5)
      in if obj_changed s (PackObj key) then s6
         else set_head_level (PackObj key) (nestLevel s) (push_frame (PackObj key) s6))"

definition init_state :: "bool \<Rightarrow> VarState" where
  "init_state is_rec =
     (if \<not> is_rec
      then zero_VarState\<lparr>is_valid := True, scalar := (scalar zero_VarState)\<lparr>is_null := True\<rparr>\<rparr>
      else zero_VarState\<lparr>is_valid := True\<rparr>)"

definition new_variable :: "varptr \<Rightarrow> Oid \<Rightarrow> bool \<Rightarrow> pgv \<Rightarrow> pgv" where
  "new_variable vp typ is_rec s =
     initObjectHistory (VarObj vp)
       (hash_enter_variable vp
          \<lparr>name = snd (snd vp), states = [], package = fst vp, typid = typ,
           is_record = is_rec, is_transactional = fst (snd vp), is_deleted = False\<rparr> s)"

definition createVariableInternal_effect ::
  "key \<Rightarrow> key \<Rightarrow> Oid \<Rightarrow> bool \<Rightarrow> bool \<Rightarrow> pgv \<Rightarrow> pgv" where
  "createVariableInternal_effect pk key typ is_rec is_trans s =
     (let vp = (pk, is_trans, key);
          found = (find_variable s vp \<noteq> None);
          s3 = (if found
                then (if is_trans \<and> \<not> obj_changed s (VarObj vp) then savepoint (VarObj vp) s
                      else s)
                else touch (PackObj pk) (new_variable vp typ is_rec s));
          s5 = (if is_trans \<and> (\<not> found \<or> \<not> is_valid (hd (vstates s vp)))
                then map_pstates pk (map_head (\<lambda>st. st\<lparr>trans_var_num := trans_var_num st + 1\<rparr>)) s3
                else s3);
          s6 = set_head_valid (VarObj vp) True s5
      in if is_trans \<and> \<not> (found \<and> obj_changed s (VarObj vp))
         then set_head_level (VarObj vp) (nestLevel s) (push_frame (VarObj vp) s6)
         else s6)"

definition createVariableInternal_body ::
  "key \<Rightarrow> key \<Rightarrow> Oid \<Rightarrow> bool \<Rightarrow> bool \<Rightarrow> pgv \<Rightarrow> varptr res" where
  "createVariableInternal_body pk key typ is_rec is_trans s =
     bnd (case find_variable s (pk, is_trans, key) of
            Some var \<Rightarrow>
              if typid var \<noteq> typ then Inl (TypeMismatch, s)
              else if is_record var \<noteq> is_rec then Inl (KindMismatch, s)
              else if is_trans then
                bnd (isObjectChangedInCurrentTrans (VarObj (pk, is_trans, key)) s)
                  (\<lambda>changed s1.
                     if \<not> changed
                     then createSavepoint (VarObj (pk, is_trans, key)) s1
                     else Inr ((), s1))
              else Inr ((), s)
          | None \<Rightarrow>
              bnd (isObjectChangedInCurrentTrans (PackObj pk)
                     (new_variable (pk, is_trans, key) typ is_rec s))
                (\<lambda>changed s2.
                   if \<not> changed then
                     bnd (createSavepoint (PackObj pk) s2)
                       (\<lambda>_. addToChangesStack (PackObj pk))
                   else Inr ((), s2)))
       (\<lambda>_ s3.
          bnd (GetActualState (VarObj (pk, is_trans, key)) s3) (\<lambda>st s4.
          bnd (if is_trans \<and> (find_variable s (pk, is_trans, key) = None \<or> \<not> is_valid st)
               then upd_trans_var_num pk (\<lambda>n. n + 1) s4
               else Inr ((), s4)) (\<lambda>_ s5.
          bnd (if is_trans
               then addToChangesStack (VarObj (pk, is_trans, key))
                      (set_head_valid (VarObj (pk, is_trans, key)) True s5)
               else Inr ((), set_head_valid (VarObj (pk, is_trans, key)) True s5))
            (\<lambda>_ s7. Inr ((pk, is_trans, key), s7)))))"

text \<open>The keys of the transactional variables of a package, in the order of a scan.\<close>

definition trans_keys :: "pgv \<Rightarrow> key \<Rightarrow> key list" where
  "trans_keys s pk = (case tab_keys s pk True of Some ks \<Rightarrow> ks | None \<Rightarrow> [])"

section \<open>The counter of valid transactional variables\<close>


definition var_valid :: "pgv \<Rightarrow> varptr \<Rightarrow> bool" where
  "var_valid s vp = (case vstates s vp of [] \<Rightarrow> False | st # _ \<Rightarrow> is_valid st)"




text \<open>
  Two stores are alike for the observations when the states, the tables and the kinds of all
  objects, the changes stack and the nesting level are the same; they may differ in the cursor
  registry, the cache and the \<open>is_deleted\<close> flags. The closed form of
  \<open>removePackageInternal\<close> follows.
\<close>

definition obs_eq :: "pgv \<Rightarrow> pgv \<Rightarrow> bool" where
  "obs_eq s s' \<longleftrightarrow>
     pstates s' = pstates s \<and> vstates s' = vstates s \<and> tab_keys s' = tab_keys s \<and>
     vkind s' = vkind s \<and> vrec s' = vrec s \<and> pack_present s' = pack_present s \<and>
     changesStack s' = changesStack s \<and> nestLevel s' = nestLevel s"


definition drop_regular :: "key \<Rightarrow> pgv \<Rightarrow> pgv" where
  "drop_regular pk s = map_package pk (\<lambda>pack. pack\<lparr>varHashRegular := None\<rparr>) s"


section \<open>Tracking a sub-transaction\<close>











section \<open>The registry along a run\<close>

text \<open>
  Two relations between stores that are used to follow the cursor registry through the
  callbacks: in the later store no scan is registered with the library that was not registered
  before, and every entry of the earlier registry is still in the registry or has had its scan
  terminated. A result keeps the registry when it is an error or its store is related to the
  given one in this way.
\<close>

definition reg_le :: "pgv \<Rightarrow> pgv \<Rightarrow> bool" where
  "reg_le s s' \<longleftrightarrow>
     set (seq_scans s') \<subseteq> set (seq_scans s) \<and>
     (\<forall>e \<in> set (variables_stats s).
        e \<in> set (variables_stats s') \<or> status e \<notin> set (seq_scans s')) \<and>
     (\<forall>e \<in> set (packages_stats s).
        e \<in> set (packages_stats s') \<or> pstatus e \<notin> set (seq_scans s'))"

definition keeps_reg :: "pgv \<Rightarrow> 'a res \<Rightarrow> bool" where
  "keeps_reg s r \<longleftrightarrow> (\<forall>a s'. r = Inr (a, s') \<longrightarrow> reg_le s s')"

section \<open>Errors that a call does not raise\<close>

text \<open>A result does not raise an error when it is not that error, in whatever store.\<close>

definition no_error :: "error \<Rightarrow> 'a res \<Rightarrow> bool" where
  "no_error e r \<longleftrightarrow> (\<forall>s. r \<noteq> Inl (e, s))"

(*MODEL*)

section \<open>Basic facts\<close>

lemma bnd_Inr [simp]: "bnd (Inr (a, s)) f = f a s"
  by (simp add: bnd_def)

lemma bnd_Inl [simp]: "bnd (Inl e) f = Inl e"
  by (simp add: bnd_def)

lemma bnd_eq_Inr: "(bnd r f = Inr x) = (\<exists>a s. r = Inr (a, s) \<and> f a s = Inr x)"
  by (cases r) (auto simp: bnd_def)

lemma bnd_eq_Inl: "(bnd r f = Inl x) = (r = Inl x \<or> (\<exists>a s. r = Inr (a, s) \<and> f a s = Inl x))"
  by (cases r) (auto simp: bnd_def)

section \<open>Access through pointers\<close>

lemma find_package_map_package [simp]:
  "find_package (map_package k f s) k' =
     (if k' = k then map_option f (find_package s k) else find_package s k')"
  by (cases "packagesHash s")
     (auto simp: find_package_def map_package_def map_of_map_entry split: option.splits)

lemma map_package_fields [simp]:
  "changesStack (map_package k f s) = changesStack s"
  "variables_stats (map_package k f s) = variables_stats s"
  "packages_stats (map_package k f s) = packages_stats s"
  "LastPackage (map_package k f s) = LastPackage s"
  "LastVariable (map_package k f s) = LastVariable s"
  "nestLevel (map_package k f s) = nestLevel s"
  "seq_scans (map_package k f s) = seq_scans s"
  "fctx_cells (map_package k f s) = fctx_cells s"
  by (simp_all add: map_package_def)

lemma find_package_other_fields [simp]:
  "find_package (s\<lparr>changesStack := a\<rparr>) = find_package s"
  "find_package (s\<lparr>variables_stats := b\<rparr>) = find_package s"
  "find_package (s\<lparr>packages_stats := c\<rparr>) = find_package s"
  "find_package (s\<lparr>LastPackage := d\<rparr>) = find_package s"
  "find_package (s\<lparr>LastVariable := e\<rparr>) = find_package s"
  "find_package (s\<lparr>nestLevel := f\<rparr>) = find_package s"
  "find_package (s\<lparr>seq_scans := g\<rparr>) = find_package s"
  "find_package (s\<lparr>fctx_cells := h\<rparr>) = find_package s"
  by (simp_all add: find_package_def fun_eq_iff)

lemma map_variable_fields [simp]:
  "changesStack (map_variable vp f s) = changesStack s"
  "variables_stats (map_variable vp f s) = variables_stats s"
  "packages_stats (map_variable vp f s) = packages_stats s"
  "LastPackage (map_variable vp f s) = LastPackage s"
  "LastVariable (map_variable vp f s) = LastVariable s"
  "nestLevel (map_variable vp f s) = nestLevel s"
  "seq_scans (map_variable vp f s) = seq_scans s"
  "fctx_cells (map_variable vp f s) = fctx_cells s"
  by (simp_all add: map_variable_def split: prod.splits)

lemma find_variable_other_fields [simp]:
  "find_variable (s\<lparr>changesStack := a\<rparr>) = find_variable s"
  "find_variable (s\<lparr>variables_stats := b\<rparr>) = find_variable s"
  "find_variable (s\<lparr>packages_stats := c\<rparr>) = find_variable s"
  "find_variable (s\<lparr>LastPackage := d\<rparr>) = find_variable s"
  "find_variable (s\<lparr>LastVariable := e\<rparr>) = find_variable s"
  "find_variable (s\<lparr>nestLevel := f\<rparr>) = find_variable s"
  "find_variable (s\<lparr>seq_scans := g\<rparr>) = find_variable s"
  "find_variable (s\<lparr>fctx_cells := h\<rparr>) = find_variable s"
  by (simp_all add: find_variable_def fun_eq_iff)

lemma obj_states_other_fields [simp]:
  "obj_states (s\<lparr>changesStack := a\<rparr>) = obj_states s"
  "obj_states (s\<lparr>variables_stats := b\<rparr>) = obj_states s"
  "obj_states (s\<lparr>packages_stats := c\<rparr>) = obj_states s"
  "obj_states (s\<lparr>LastPackage := d\<rparr>) = obj_states s"
  "obj_states (s\<lparr>LastVariable := e\<rparr>) = obj_states s"
  "obj_states (s\<lparr>nestLevel := f\<rparr>) = obj_states s"
  "obj_states (s\<lparr>seq_scans := g\<rparr>) = obj_states s"
  "obj_states (s\<lparr>fctx_cells := h\<rparr>) = obj_states s"
  by (auto simp: obj_states_def fun_eq_iff split: objptr.splits)

lemma states_map_htab [simp]: "states (map_htab tr g pack) = states pack"
  by (simp add: map_htab_def)

lemma name_map_htab [simp]: "name (map_htab tr g pack) = name pack"
  by (simp add: map_htab_def)

lemma pack_htab_map_htab [simp]:
  "pack_htab (map_htab tr g pack) tr' = (if tr' = tr then g (pack_htab pack tr) else pack_htab pack tr')"
  by (auto simp: map_htab_def pack_htab_def)

lemma pack_htab_states_update [simp]:
  "pack_htab (pack\<lparr>states := x\<rparr>) tr = pack_htab pack tr"
  by (simp add: pack_htab_def)

lemma find_variable_map_variable [simp]:
  "find_variable (map_variable vp f s) vp' =
     (if vp' = vp then map_option f (find_variable s vp) else find_variable s vp')"
  by (cases vp; cases vp')
     (auto simp: find_variable_def map_variable_def map_of_map_entry split: option.splits)

lemma find_package_map_variable [simp]:
  "find_package (map_variable (pk, tr, vk) f s) k =
     (if k = pk then map_option (map_htab tr (map_option (AList.map_entry vk f))) (find_package s pk)
      else find_package s k)"
  by (simp add: map_variable_def)

lemma find_variable_map_package_states [simp]:
  "find_variable (map_package k (\<lambda>pack. pack\<lparr>states := g pack\<rparr>) s) vp = find_variable s vp"
  by (cases vp) (auto simp: find_variable_def split: option.splits)

lemma obj_states_VarObj:
  "obj_states s (VarObj vp) =
     (case find_variable s vp of None \<Rightarrow> [] | Some var \<Rightarrow> map hdr (states var))"
  by (simp add: obj_states_def)

lemma obj_states_PackObj:
  "obj_states s (PackObj k) =
     (case find_package s k of None \<Rightarrow> [] | Some pack \<Rightarrow> map hdr (states pack))"
  by (simp add: obj_states_def)

lemma hdr_simps [simp]:
  "is_valid (hdr st) = is_valid st"
  "level (hdr st) = level st"
  "hdr (st\<lparr>level := l\<rparr>) = (hdr st)\<lparr>level := l\<rparr>"
  "hdr (st\<lparr>is_valid := b\<rparr>) = (hdr st)\<lparr>is_valid := b\<rparr>"
  by (simp_all add: hdr_def)

lemma hdr_pack_simps [simp]:
  "hdr (pst\<lparr>trans_var_num := n\<rparr>) = hdr pst"
  by (simp add: hdr_def)

lemma hdr_var_simps [simp]:
  "hdr (vst\<lparr>scalar := sc\<rparr>) = hdr vst"
  "hdr (vst\<lparr>recordv := rc\<rparr>) = hdr vst"
  by (simp_all add: hdr_def)

lemma delete_nth_simps [simp]:
  "delete_nth 0 (x # xs) = xs"
  "delete_nth (Suc 0) (x # y # xs) = x # xs"
  "delete_nth i [] = []"
  by (simp_all add: delete_nth_def)

lemma map_map_head_same:
  "(\<And>x. g (f x) = g x) \<Longrightarrow> map g (map_head f xs) = map g xs"
  by (cases xs) (simp_all add: map_head_def)

lemma map_head_simps [simp]:
  "map_head f [] = []"
  "map_head f (x # xs) = f x # xs"
  by (simp_all add: map_head_def)

lemma map_hdr_map_head_level [simp]:
  "map hdr (map_head (\<lambda>st. st\<lparr>level := l\<rparr>) xs) = map_head (\<lambda>st. st\<lparr>level := l\<rparr>) (map hdr xs)"
  by (cases xs) simp_all

lemma map_hdr_map_head_valid [simp]:
  "map hdr (map_head (\<lambda>st. st\<lparr>is_valid := b\<rparr>) xs) = map_head (\<lambda>st. st\<lparr>is_valid := b\<rparr>) (map hdr xs)"
  by (cases xs) simp_all

lemma push_levels_fields [simp]:
  "packagesHash (push_levels n s) = packagesHash s"
  "find_package (push_levels n s) = find_package s"
  "find_variable (push_levels n s) = find_variable s"
  "obj_states (push_levels n s) = obj_states s"
  "nestLevel (push_levels n s) = nestLevel s"
  "variables_stats (push_levels n s) = variables_stats s"
  "packages_stats (push_levels n s) = packages_stats s"
  "seq_scans (push_levels n s) = seq_scans s"
  "fctx_cells (push_levels n s) = fctx_cells s"
  "LastPackage (push_levels n s) = LastPackage s"
  "LastVariable (push_levels n s) = LastVariable s"
  by (induction n arbitrary: s; simp add: pushChangesStack_def fun_eq_iff)+

lemma prepareChangesStack_fields [simp]:
  "packagesHash (prepareChangesStack s) = packagesHash s"
  "find_package (prepareChangesStack s) = find_package s"
  "find_variable (prepareChangesStack s) = find_variable s"
  "obj_states (prepareChangesStack s) = obj_states s"
  "nestLevel (prepareChangesStack s) = nestLevel s"
  "variables_stats (prepareChangesStack s) = variables_stats s"
  "packages_stats (prepareChangesStack s) = packages_stats s"
  "seq_scans (prepareChangesStack s) = seq_scans s"
  "fctx_cells (prepareChangesStack s) = fctx_cells s"
  "LastPackage (prepareChangesStack s) = LastPackage s"
  "LastVariable (prepareChangesStack s) = LastVariable s"
  by (simp_all add: prepareChangesStack_def split: option.splits)

lemma prepareChangesStack_Some [simp]:
  "changesStack s = Some fs \<Longrightarrow> prepareChangesStack s = s"
  by (simp add: prepareChangesStack_def)

section \<open>The states of an object after a primitive step\<close>

lemma obj_states_map_variable_Pack [simp]:
  "obj_states (map_variable vp f s) (PackObj k) = obj_states s (PackObj k)"
  by (cases vp) (auto simp: obj_states_def split: option.splits)

lemma obj_states_map_variable_Var [simp]:
  "obj_states (map_variable vp f s) (VarObj vp') =
     (if vp' = vp
      then (case find_variable s vp of None \<Rightarrow> [] | Some var \<Rightarrow> map hdr (states (f var)))
      else obj_states s (VarObj vp'))"
  by (auto simp: obj_states_def split: option.splits)

lemma obj_states_map_package_Pack [simp]:
  "obj_states (map_package k f s) (PackObj k') =
     (if k' = k
      then (case find_package s k of None \<Rightarrow> [] | Some pack \<Rightarrow> map hdr (states (f pack)))
      else obj_states s (PackObj k'))"
  by (auto simp: obj_states_def split: option.splits)

lemma obj_states_map_package_Var [simp]:
  "obj_states (map_package k (\<lambda>pack. pack\<lparr>states := g pack\<rparr>) s) (VarObj vp) =
     obj_states s (VarObj vp)"
  by (simp add: obj_states_def)

lemma obj_states_set_head_level [simp]:
  "obj_states (set_head_level obj l s) obj' =
     (if obj' = obj then map_head (\<lambda>st. st\<lparr>level := l\<rparr>) (obj_states s obj)
      else obj_states s obj')"
  by (cases obj; cases obj'; simp add: set_head_level_def)
     (auto simp: obj_states_PackObj obj_states_VarObj split: option.splits)

lemma obj_states_set_head_valid [simp]:
  "obj_states (set_head_valid obj b s) obj' =
     (if obj' = obj then map_head (\<lambda>st. st\<lparr>is_valid := b\<rparr>) (obj_states s obj)
      else obj_states s obj')"
  by (cases obj; cases obj'; simp add: set_head_valid_def)
     (auto simp: obj_states_PackObj obj_states_VarObj split: option.splits)

lemma map_hdr_map_head_dec [simp]:
  "map hdr (map_head (\<lambda>st. st\<lparr>level := level st - 1\<rparr>) xs) =
   map_head (\<lambda>st. st\<lparr>level := level st - 1\<rparr>) (map hdr xs)"
  by (cases xs) simp_all

lemma obj_states_dec_head_level [simp]:
  "obj_states (dec_head_level obj s) obj' =
     (if obj' = obj then map_head (\<lambda>st. st\<lparr>level := level st - 1\<rparr>) (obj_states s obj)
      else obj_states s obj')"
  by (cases obj; cases obj'; simp add: dec_head_level_def)
     (auto simp: obj_states_PackObj obj_states_VarObj split: option.splits)

lemma map_delete_nth [simp]: "map f (delete_nth i xs) = delete_nth i (map f xs)"
  by (simp add: delete_nth_def take_map drop_map)

lemma obj_states_removeState [simp]:
  "obj_states (removeState obj i s) obj' =
     (if obj' = obj then delete_nth i (obj_states s obj) else obj_states s obj')"
  by (cases obj; cases obj'; simp add: removeState_def)
     (auto simp: obj_states_PackObj obj_states_VarObj split: option.splits)

section \<open>Results of the primitive steps\<close>

lemma push_copy_simps [simp]:
  "push_copy f [] = []"
  "push_copy f (x # xs) = f x # x # xs"
  by (simp_all add: push_copy_def)

lemma GetActualState_Inr:
  "GetActualState obj s = Inr (st, s') \<longleftrightarrow>
     s' = s \<and> obj_states s obj \<noteq> [] \<and> st = hd (obj_states s obj)"
  by (auto simp: GetActualState_def split: list.splits)

lemma isObjectChangedInCurrentTrans_Inr:
  "isObjectChangedInCurrentTrans obj s = Inr (b, s') \<longleftrightarrow>
     s' = s \<and> (changesStack s \<noteq> None \<longrightarrow> obj_states s obj \<noteq> []) \<and>
     b = (changesStack s \<noteq> None \<and> level (hd (obj_states s obj)) = nestLevel s)"
  by (auto simp: isObjectChangedInCurrentTrans_def GetCurrentTransactionNestLevel_def
      split: list.splits option.splits)

lemma isObjectChangedInUpperTrans_Inr:
  "isObjectChangedInUpperTrans obj s = Inr (b, s') \<longleftrightarrow>
     s' = s \<and> obj_states s obj \<noteq> [] \<and>
     b = (if tl (obj_states s obj) \<noteq> [] \<and> level (hd (obj_states s obj)) = nestLevel s
          then level (hd (tl (obj_states s obj))) = nestLevel s - 1
          else level (hd (obj_states s obj)) = nestLevel s - 1)"
  by (auto simp: isObjectChangedInUpperTrans_def GetCurrentTransactionNestLevel_def
      split: list.splits option.splits)

lemma changesStack_is_empty_Inr:
  "changesStack_is_empty s = Inr (b, s') \<longleftrightarrow>
     s' = s \<and> changesStack s \<noteq> None \<and> b = (changesStack s = Some [])"
  by (auto simp: changesStack_is_empty_def split: option.splits)

lemma isPackageEmpty_Inr:
  "isPackageEmpty k s = Inr (b, s') \<longleftrightarrow>
     s' = s \<and> obj_states s (PackObj k) \<noteq> [] \<and>
     b = (trans_var_num (hd (states (the (find_package s k))))
            + numOfRegVars (the (find_package s k)) = 0)"
  by (auto simp: isPackageEmpty_def obj_states_PackObj split: option.splits list.splits)

lemma createSavepoint_Inr:
  "createSavepoint obj s = Inr (u, s') \<longleftrightarrow>
     obj_states s obj \<noteq> [] \<and>
     s' = (case obj of
              PackObj k \<Rightarrow>
                map_package k (\<lambda>pack. pack\<lparr>states :=
                  push_copy (\<lambda>prevState.
                     \<lparr>is_valid = is_valid prevState, level = 0,
                      trans_var_num = trans_var_num prevState\<rparr>) (states pack)\<rparr>) s
            | VarObj vp \<Rightarrow>
                map_variable vp (\<lambda>var. var\<lparr>states :=
                  push_copy (\<lambda>prevState.
                     (copyValue prevState zero_VarState var)\<lparr>is_valid := is_valid prevState\<rparr>)
                    (states var)\<rparr>) s)"
  by (auto simp: createSavepoint_def split: list.splits)

lemma addToChangesStack_Inr:
  "addToChangesStack obj s = Inr (u, s') \<longleftrightarrow>
     changesStack (prepareChangesStack s) \<noteq> None \<and> obj_states s obj \<noteq> [] \<and>
     (if level (hd (obj_states s obj)) = nestLevel s then s' = prepareChangesStack s
      else changesStack (prepareChangesStack s) \<noteq> Some [] \<and>
           s' = set_head_level obj (nestLevel s)
                  ((prepareChangesStack s)\<lparr>changesStack :=
                     Some (push_changed obj (hd (the (changesStack (prepareChangesStack s))))
                           # tl (the (changesStack (prepareChangesStack s))))\<rparr>))"
  by (auto simp: addToChangesStack_def bnd_eq_Inr isObjectChangedInCurrentTrans_Inr
      GetCurrentTransactionNestLevel_def split: option.splits list.splits)

lemma addToChangesStackUpperLevel_Inr:
  "addToChangesStackUpperLevel obj s = Inr (u, s') \<longleftrightarrow>
     changesStack s \<noteq> None \<and> changesStack s \<noteq> Some [] \<and>
     s' = s\<lparr>changesStack := Some (push_changed obj (hd (the (changesStack s)))
                                   # tl (the (changesStack s)))\<rparr>"
  by (auto simp: addToChangesStackUpperLevel_def split: option.splits list.splits)

lemma upd_trans_var_num_Inr:
  "upd_trans_var_num k f s = Inr (u, s') \<longleftrightarrow>
     obj_states s (PackObj k) \<noteq> [] \<and>
     s' = map_package k (\<lambda>pack. pack\<lparr>states :=
            map_head (\<lambda>st. st\<lparr>trans_var_num := f (trans_var_num st)\<rparr>) (states pack)\<rparr>) s"
  by (auto simp: upd_trans_var_num_def bnd_eq_Inr GetActualState_Inr)

lemma GetActualValue_scalar_Inr:
  "GetActualValue_scalar vp s = Inr (sc, s') \<longleftrightarrow>
     s' = s \<and> obj_states s (VarObj vp) \<noteq> [] \<and>
     sc = scalar (hd (states (the (find_variable s vp))))"
  by (auto simp: GetActualValue_scalar_def obj_states_VarObj split: option.splits list.splits)

lemmas step_Inr = GetActualState_Inr isObjectChangedInCurrentTrans_Inr isObjectChangedInUpperTrans_Inr
  changesStack_is_empty_Inr isPackageEmpty_Inr createSavepoint_Inr
  addToChangesStack_Inr addToChangesStackUpperLevel_Inr upd_trans_var_num_Inr GetActualValue_scalar_Inr

lemma hdr_copyValue [simp]: "hdr (copyValue src dest var) = hdr dest"
  by (simp add: copyValue_def hdr_def)

lemma hdr_zero_VarState [simp]: "hdr zero_VarState = \<lparr>is_valid = False, level = 0\<rparr>"
  by (simp add: zero_VarState_def hdr_def)

lemma hdr_PackState [simp]:
  "hdr \<lparr>is_valid = b, level = l, trans_var_num = n\<rparr> = \<lparr>is_valid = b, level = l\<rparr>"
  by (simp add: hdr_def)

lemma map_hdr_push_copy:
  "(\<And>x. hdr (f x) = g (hdr x)) \<Longrightarrow> map hdr (push_copy f xs) = push_copy g (map hdr xs)"
  by (cases xs) simp_all

lemma obj_states_createSavepoint:
  "createSavepoint obj s = Inr (u, s') \<Longrightarrow>
   obj_states s' obj' =
     (if obj' = obj
      then push_copy (\<lambda>st. \<lparr>is_valid = is_valid st, level = 0\<rparr>) (obj_states s obj)
      else obj_states s obj')"
  apply (cases obj; cases obj'; clarsimp simp: createSavepoint_Inr)
   apply (auto simp: obj_states_PackObj obj_states_VarObj  intro!: map_hdr_push_copy split: option.splits)
  done

lemma obj_states_upd_trans_var_num:
  "upd_trans_var_num k f s = Inr (u, s') \<Longrightarrow> obj_states s' obj = obj_states s obj"
  by (cases obj)
     (auto simp: upd_trans_var_num_Inr obj_states_def map_map_head_same split: option.splits list.splits)

lemma map_head_level_same:
  "xs \<noteq> [] \<Longrightarrow> level (hd xs) = l \<Longrightarrow>
   map_head (\<lambda>st. st\<lparr>level := l\<rparr>) xs = (xs :: 'a TransState_scheme list)"
  by (cases xs) auto

lemma obj_states_addToChangesStack:
  "addToChangesStack obj s = Inr (u, s') \<Longrightarrow>
   obj_states s' obj' =
     (if obj' = obj then map_head (\<lambda>st. st\<lparr>level := nestLevel s\<rparr>) (obj_states s obj)
      else obj_states s obj')"
  by (auto simp: addToChangesStack_Inr map_head_level_same split: if_splits)

lemma obj_states_addToChangesStackUpperLevel:
  "addToChangesStackUpperLevel obj s = Inr (u, s') \<Longrightarrow> obj_states s' = obj_states s"
  by (auto simp: addToChangesStackUpperLevel_Inr)

section \<open>Steps as rewritings of the states of one object\<close>

lemma set_head_level_map:
  "set_head_level (PackObj k) l s = map_pstates k (map_head (\<lambda>st. st\<lparr>level := l\<rparr>)) s"
  "set_head_level (VarObj vp) l s = map_vstates vp (\<lambda>_. map_head (\<lambda>st. st\<lparr>level := l\<rparr>)) s"
  by (simp_all add: set_head_level_def map_pstates_def map_vstates_def)

lemma set_head_valid_map:
  "set_head_valid (PackObj k) b s = map_pstates k (map_head (\<lambda>st. st\<lparr>is_valid := b\<rparr>)) s"
  "set_head_valid (VarObj vp) b s = map_vstates vp (\<lambda>_. map_head (\<lambda>st. st\<lparr>is_valid := b\<rparr>)) s"
  by (simp_all add: set_head_valid_def map_pstates_def map_vstates_def)

lemma dec_head_level_map:
  "dec_head_level (PackObj k) s = map_pstates k (map_head (\<lambda>st. st\<lparr>level := level st - 1\<rparr>)) s"
  "dec_head_level (VarObj vp) s = map_vstates vp (\<lambda>_. map_head (\<lambda>st. st\<lparr>level := level st - 1\<rparr>)) s"
  by (simp_all add: dec_head_level_def map_pstates_def map_vstates_def)

lemma removeState_map:
  "removeState (PackObj k) i s = map_pstates k (delete_nth i) s"
  "removeState (VarObj vp) i s = map_vstates vp (\<lambda>_. delete_nth i) s"
  by (simp_all add: removeState_def map_pstates_def map_vstates_def)

lemma initObjectHistory_map:
  "initObjectHistory (PackObj k) s =
     map_pstates k (\<lambda>_. [\<lparr>is_valid = True, level = 0, trans_var_num = 0\<rparr>]) s"
  "initObjectHistory (VarObj vp) s =
     map_vstates vp (\<lambda>var _.
        [if \<not> is_record var
         then zero_VarState\<lparr>is_valid := True, scalar := (scalar zero_VarState)\<lparr>is_null := True\<rparr>\<rparr>
         else zero_VarState\<lparr>is_valid := True\<rparr>]) s"
  by (simp_all add: initObjectHistory_def map_pstates_def map_vstates_def)

lemma set_scalar_map:
  "set_scalar vp sc s = map_vstates vp (\<lambda>_. map_head (\<lambda>st. st\<lparr>scalar := sc\<rparr>)) s"
  by (simp add: set_scalar_def map_vstates_def)

lemmas prim_map = set_head_level_map set_head_valid_map dec_head_level_map removeState_map
  initObjectHistory_map set_scalar_map

section \<open>Observations after a rewriting\<close>

lemma map_pstates_fields [simp]:
  "changesStack (map_pstates k g s) = changesStack s"
  "variables_stats (map_pstates k g s) = variables_stats s"
  "packages_stats (map_pstates k g s) = packages_stats s"
  "LastPackage (map_pstates k g s) = LastPackage s"
  "LastVariable (map_pstates k g s) = LastVariable s"
  "nestLevel (map_pstates k g s) = nestLevel s"
  "seq_scans (map_pstates k g s) = seq_scans s"
  "fctx_cells (map_pstates k g s) = fctx_cells s"
  by (simp_all add: map_pstates_def)

lemma map_vstates_fields [simp]:
  "changesStack (map_vstates vp g s) = changesStack s"
  "variables_stats (map_vstates vp g s) = variables_stats s"
  "packages_stats (map_vstates vp g s) = packages_stats s"
  "LastPackage (map_vstates vp g s) = LastPackage s"
  "LastVariable (map_vstates vp g s) = LastVariable s"
  "nestLevel (map_vstates vp g s) = nestLevel s"
  "seq_scans (map_vstates vp g s) = seq_scans s"
  "fctx_cells (map_vstates vp g s) = fctx_cells s"
  by (simp_all add: map_vstates_def)

lemma map_fst_map_entry [simp]: "map fst (AList.map_entry k f xs) = map fst xs"
  by (induction xs) auto

lemma pack_present_map_pstates [simp]: "pack_present (map_pstates k g s) = pack_present s"
  by (auto simp: pack_present_def map_pstates_def fun_eq_iff)

lemma pack_present_map_vstates [simp]: "pack_present (map_vstates vp g s) = pack_present s"
  by (cases vp) (auto simp: pack_present_def map_vstates_def fun_eq_iff)

lemma pack_present_map_variable [simp]: "pack_present (map_variable vp f s) = pack_present s"
  by (cases vp) (auto simp: pack_present_def fun_eq_iff)

lemma pstates_map_pstates [simp]:
  "pstates (map_pstates k g s) k' =
     (if k' = k \<and> pack_present s k then g (pstates s k) else pstates s k')"
  by (auto simp: pstates_def map_pstates_def pack_present_def split: option.splits)

lemma pstates_map_variable [simp]: "pstates (map_variable vp f s) = pstates s"
  by (cases vp) (auto simp: pstates_def fun_eq_iff split: option.splits)

lemma pstates_map_vstates [simp]: "pstates (map_vstates vp g s) = pstates s"
  by (simp add: map_vstates_def)

lemma find_variable_map_pstates [simp]: "find_variable (map_pstates k g s) = find_variable s"
  by (simp add: map_pstates_def fun_eq_iff)

lemma vstates_map_pstates [simp]: "vstates (map_pstates k g s) = vstates s"
  by (simp add: vstates_def fun_eq_iff)

lemma find_variable_map_vstates [simp]:
  "find_variable (map_vstates vp g s) vp' =
     (if vp' = vp then map_option (\<lambda>var. var\<lparr>states := g var (states var)\<rparr>) (find_variable s vp)
      else find_variable s vp')"
  by (simp add: map_vstates_def)

lemma vstates_map_vstates [simp]:
  "vstates (map_vstates vp g s) vp' =
     (if vp' = vp
      then (case find_variable s vp of None \<Rightarrow> [] | Some var \<Rightarrow> g var (states var))
      else vstates s vp')"
  by (auto simp: vstates_def split: option.splits)

lemma vstates_map_variable [simp]:
  "vstates (map_variable vp f s) vp' =
     (if vp' = vp
      then (case find_variable s vp of None \<Rightarrow> [] | Some var \<Rightarrow> states (f var))
      else vstates s vp')"
  by (auto simp: vstates_def split: option.splits)

lemma tab_keys_map_pstates [simp]: "tab_keys (map_pstates k g s) = tab_keys s"
  by (auto simp: tab_keys_def map_pstates_def fun_eq_iff split: option.splits)

lemma tab_keys_map_variable [simp]: "tab_keys (map_variable vp f s) = tab_keys s"
  by (cases vp) (auto simp: tab_keys_def fun_eq_iff option.map_comp comp_def split: option.splits)

lemma tab_keys_map_vstates [simp]: "tab_keys (map_vstates vp g s) = tab_keys s"
  by (simp add: map_vstates_def)

lemma obs_other_fields [simp]:
  "pstates (s\<lparr>changesStack := a\<rparr>) = pstates s"
  "pstates (s\<lparr>variables_stats := b\<rparr>) = pstates s"
  "pstates (s\<lparr>packages_stats := c\<rparr>) = pstates s"
  "pstates (s\<lparr>LastPackage := d\<rparr>) = pstates s"
  "pstates (s\<lparr>LastVariable := e\<rparr>) = pstates s"
  "pstates (s\<lparr>nestLevel := f\<rparr>) = pstates s"
  "pstates (s\<lparr>seq_scans := g\<rparr>) = pstates s"
  "pstates (s\<lparr>fctx_cells := h\<rparr>) = pstates s"
  "vstates (s\<lparr>changesStack := a\<rparr>) = vstates s"
  "vstates (s\<lparr>variables_stats := b\<rparr>) = vstates s"
  "vstates (s\<lparr>packages_stats := c\<rparr>) = vstates s"
  "vstates (s\<lparr>LastPackage := d\<rparr>) = vstates s"
  "vstates (s\<lparr>LastVariable := e\<rparr>) = vstates s"
  "vstates (s\<lparr>nestLevel := f\<rparr>) = vstates s"
  "vstates (s\<lparr>seq_scans := g\<rparr>) = vstates s"
  "vstates (s\<lparr>fctx_cells := h\<rparr>) = vstates s"
  "tab_keys (s\<lparr>changesStack := a\<rparr>) = tab_keys s"
  "tab_keys (s\<lparr>variables_stats := b\<rparr>) = tab_keys s"
  "tab_keys (s\<lparr>packages_stats := c\<rparr>) = tab_keys s"
  "tab_keys (s\<lparr>LastPackage := d\<rparr>) = tab_keys s"
  "tab_keys (s\<lparr>LastVariable := e\<rparr>) = tab_keys s"
  "tab_keys (s\<lparr>nestLevel := f\<rparr>) = tab_keys s"
  "tab_keys (s\<lparr>seq_scans := g\<rparr>) = tab_keys s"
  "tab_keys (s\<lparr>fctx_cells := h\<rparr>) = tab_keys s"
  "pack_present (s\<lparr>changesStack := a\<rparr>) = pack_present s"
  "pack_present (s\<lparr>variables_stats := b\<rparr>) = pack_present s"
  "pack_present (s\<lparr>packages_stats := c\<rparr>) = pack_present s"
  "pack_present (s\<lparr>LastPackage := d\<rparr>) = pack_present s"
  "pack_present (s\<lparr>LastVariable := e\<rparr>) = pack_present s"
  "pack_present (s\<lparr>nestLevel := f\<rparr>) = pack_present s"
  "pack_present (s\<lparr>seq_scans := g\<rparr>) = pack_present s"
  "pack_present (s\<lparr>fctx_cells := h\<rparr>) = pack_present s"
  by (simp_all add: pstates_def vstates_def tab_keys_def pack_present_def fun_eq_iff)

lemma obs_prepare [simp]:
  "pstates (prepareChangesStack s) = pstates s"
  "vstates (prepareChangesStack s) = vstates s"
  "tab_keys (prepareChangesStack s) = tab_keys s"
  "pack_present (prepareChangesStack s) = pack_present s"
  by (simp_all add: pstates_def vstates_def tab_keys_def pack_present_def fun_eq_iff)

lemma obj_states_obs:
  "obj_states s (PackObj k) = map hdr (pstates s k)"
  "obj_states s (VarObj vp) = map hdr (vstates s vp)"
  by (simp_all add: obj_states_def pstates_def vstates_def split: option.splits)

lemma pstates_present: "pstates s k \<noteq> [] \<Longrightarrow> pack_present s k"
  by (auto simp: pstates_def pack_present_def split: option.splits)

lemma vstates_present: "vstates s vp \<noteq> [] \<Longrightarrow> find_variable s vp \<noteq> None"
  by (auto simp: vstates_def split: option.splits)

section \<open>Tables\<close>

lemma numOfRegVars_num_reg:
  "find_package s k = Some pack \<Longrightarrow> numOfRegVars pack = num_reg s k"
  by (simp add: numOfRegVars_def num_reg_def tab_keys_def pack_htab_def split: option.splits)

lemma makePackHTAB_fields [simp]:
  "changesStack (makePackHTAB k tr s) = changesStack s"
  "variables_stats (makePackHTAB k tr s) = variables_stats s"
  "packages_stats (makePackHTAB k tr s) = packages_stats s"
  "LastPackage (makePackHTAB k tr s) = LastPackage s"
  "LastVariable (makePackHTAB k tr s) = LastVariable s"
  "nestLevel (makePackHTAB k tr s) = nestLevel s"
  "seq_scans (makePackHTAB k tr s) = seq_scans s"
  "fctx_cells (makePackHTAB k tr s) = fctx_cells s"
  by (simp_all add: makePackHTAB_def)

lemma makePackHTAB_obs [simp]:
  "pstates (makePackHTAB k tr s) = pstates s"
  "pack_present (makePackHTAB k tr s) = pack_present s"
  "tab_keys (makePackHTAB k tr s) k' tr' =
     (if k' = k \<and> tr' = tr \<and> pack_present s k then Some [] else tab_keys s k' tr')"
  "find_variable (makePackHTAB k tr s) (pk, tr', vk) =
     (if pk = k \<and> tr' = tr then None else find_variable s (pk, tr', vk))"
  "vstates (makePackHTAB k tr s) (pk, tr', vk) =
     (if pk = k \<and> tr' = tr then [] else vstates s (pk, tr', vk))"
  by (auto simp: makePackHTAB_def pstates_def pack_present_def tab_keys_def find_variable_def
      vstates_def fun_eq_iff split: option.splits)

lemma hash_enter_variable_fields [simp]:
  "changesStack (hash_enter_variable vp var s) = changesStack s"
  "variables_stats (hash_enter_variable vp var s) = variables_stats s"
  "packages_stats (hash_enter_variable vp var s) = packages_stats s"
  "LastPackage (hash_enter_variable vp var s) = LastPackage s"
  "LastVariable (hash_enter_variable vp var s) = LastVariable s"
  "nestLevel (hash_enter_variable vp var s) = nestLevel s"
  "seq_scans (hash_enter_variable vp var s) = seq_scans s"
  "fctx_cells (hash_enter_variable vp var s) = fctx_cells s"
  by (simp_all add: hash_enter_variable_def split: prod.splits)

lemma map_fst_update:
  "map fst (AList.update k v xs) = (if k \<in> fst ` set xs then map fst xs else map fst xs @ [k])"
  by (induction xs) auto

lemma hash_enter_variable_obs [simp]:
  "pstates (hash_enter_variable vp var s) = pstates s"
  "pack_present (hash_enter_variable vp var s) = pack_present s"
  "find_variable (hash_enter_variable (pk, tr, vk) var s) vp' =
     (if vp' = (pk, tr, vk) \<and> tab_keys s pk tr \<noteq> None then Some var else find_variable s vp')"
  "vstates (hash_enter_variable (pk, tr, vk) var s) vp' =
     (if vp' = (pk, tr, vk) \<and> tab_keys s pk tr \<noteq> None then states var else vstates s vp')"
  "tab_keys (hash_enter_variable (pk, tr, vk) var s) k' tr' =
     (if k' = pk \<and> tr' = tr
      then map_option (\<lambda>ks. if vk \<in> set ks then ks else ks @ [vk]) (tab_keys s pk tr)
      else tab_keys s k' tr')"
      apply (cases vp; auto simp: hash_enter_variable_def pstates_def fun_eq_iff split: option.splits)
     apply (cases vp; auto simp: hash_enter_variable_def pack_present_def fun_eq_iff split: option.splits)
    apply (cases vp'; auto simp: hash_enter_variable_def find_variable_def tab_keys_def update_conv' split: option.splits)
   apply (cases vp'; auto simp: hash_enter_variable_def find_variable_def vstates_def tab_keys_def update_conv' split: option.splits)
  apply (auto simp: hash_enter_variable_def tab_keys_def map_fst_update option.map_comp comp_def split: option.splits)
  done

section \<open>Results of the primitive steps, through the observations\<close>

lemma createSavepoint_Inr':
  "createSavepoint obj s = Inr (u, s') \<longleftrightarrow>
     obj_states s obj \<noteq> [] \<and>
     s' = (case obj of
              PackObj k \<Rightarrow>
                map_pstates k (push_copy (\<lambda>prevState.
                     \<lparr>is_valid = is_valid prevState, level = 0,
                      trans_var_num = trans_var_num prevState\<rparr>)) s
            | VarObj vp \<Rightarrow>
                map_vstates vp (\<lambda>var. push_copy (\<lambda>prevState.
                     (copyValue prevState zero_VarState var)\<lparr>is_valid := is_valid prevState\<rparr>)) s)"
  by (cases obj) (simp_all add: createSavepoint_Inr map_pstates_def map_vstates_def)

lemma upd_trans_var_num_Inr':
  "upd_trans_var_num k f s = Inr (u, s') \<longleftrightarrow>
     obj_states s (PackObj k) \<noteq> [] \<and>
     s' = map_pstates k (map_head (\<lambda>st. st\<lparr>trans_var_num := f (trans_var_num st)\<rparr>)) s"
  by (simp add: upd_trans_var_num_Inr map_pstates_def)

lemma isPackageEmpty_Inr':
  "isPackageEmpty k s = Inr (b, s') \<longleftrightarrow>
     s' = s \<and> pstates s k \<noteq> [] \<and>
     b = (trans_var_num (hd (pstates s k)) + num_reg s k = 0)"
  by (auto simp: isPackageEmpty_def pstates_def numOfRegVars_num_reg split: option.splits list.splits)

lemma GetActualValue_scalar_Inr':
  "GetActualValue_scalar vp s = Inr (sc, s') \<longleftrightarrow>
     s' = s \<and> vstates s vp \<noteq> [] \<and> sc = scalar (hd (vstates s vp))"
  by (auto simp: GetActualValue_scalar_def vstates_def split: option.splits list.splits)

lemmas step_obs = GetActualState_Inr isObjectChangedInCurrentTrans_Inr isObjectChangedInUpperTrans_Inr
  changesStack_is_empty_Inr isPackageEmpty_Inr' createSavepoint_Inr'
  addToChangesStack_Inr addToChangesStackUpperLevel_Inr upd_trans_var_num_Inr' GetActualValue_scalar_Inr'
  obj_states_obs prim_map

lemma hd_map_head [simp]: "xs \<noteq> [] \<Longrightarrow> hd (map_head f xs) = f (hd xs)"
  by (cases xs) simp_all

lemma map_head_Nil_iff [simp]: "map_head f xs = [] \<longleftrightarrow> xs = []"
  by (cases xs) simp_all

lemma push_copy_Nil_iff [simp]: "push_copy f xs = [] \<longleftrightarrow> xs = []"
  by (cases xs) simp_all

lemma hd_push_copy [simp]: "xs \<noteq> [] \<Longrightarrow> hd (push_copy f xs) = f (hd xs)"
  by (cases xs) simp_all

section \<open>The bound on names\<close>

lemma getKeyFromName_accepts:
  "length nm \<le> 62 \<Longrightarrow> getKeyFromName nm = Inr (takeWhile (\<lambda>c. c \<noteq> CHR 0x00) nm)"
  by (simp add: getKeyFromName_def NAMEDATALEN_def)

lemma getKeyFromName_rejects:
  "63 \<le> length nm \<Longrightarrow> getKeyFromName nm = Inl InvalidParameter"
  by (simp add: getKeyFromName_def NAMEDATALEN_def)

text \<open>A name of exactly \<open>NAMEDATALEN - 1\<close> bytes is among the names refused.\<close>

lemma getKeyFromName_boundary:
  "getKeyFromName (replicate 63 (CHR ''a'')) = Inl InvalidParameter"
  by (simp add: getKeyFromName_rejects)

lemma too_long_rejected:
  assumes "63 \<le> length nm"
  shows "createPackage nm tr s = Inl (InvalidParameter, s)"
    and "getPackage nm strict s = Inl (InvalidParameter, s)"
    and "createVariableInternal pk nm typ ir tr s = Inl (InvalidParameter, s)"
    and "getVariableInternal pk nm typ ir strict s = Inl (InvalidParameter, s)"
    and "variable_set nm v typ x isnull tr s = Inl (InvalidParameter, s)"
    and "variable_get nm v typ strict s = Inl (InvalidParameter, s)"
    and "remove_package nm s = Inl (InvalidParameter, s)"
    and "remove_variable nm v s = Inl (InvalidParameter, s)"
    and "package_exists nm s = Inl (InvalidParameter, s)"
    and "variable_exists nm v s = Inl (InvalidParameter, s)"
  using assms
  by (simp_all add: createPackage_def getPackage_def createVariableInternal_def
      getVariableInternal_def variable_set_def variable_get_def remove_package_def
      remove_variable_def package_exists_def variable_exists_def getKeyFromName_rejects)

text \<open>
  C9, as stated, fails: \<open>variable_get\<close> called without \<open>strict\<close> for a package that
  does not exist returns null before it looks at the variable name, so a variable
  name of 100 bytes raises nothing.
\<close>

theorem C9_counterexample:
  "63 < length (replicate 100 (CHR ''v'')) \<and>
   variable_get ''p'' (replicate 100 (CHR ''v'')) 23 False fresh_session
     = Inr ((0, True), fresh_session)"
  by (simp add: variable_get_def getPackage_def getKeyFromName_def NAMEDATALEN_def
        find_package_def fresh_session_def)

section \<open>Release and commit (C2)\<close>

subsection \<open>Release of a savepoint\<close>

lemma release_var:
  assumes "vstates s vp = st # rest" and "level st = nestLevel s"
    and "changesStack s = Some fs" and "is_valid st \<or> (rest \<noteq> [] \<and> fs \<noteq> [])"
  shows "\<exists>s'. releaseSavepoint (VarObj vp) sub s = Inr ((), s') \<and>
           (if rest \<noteq> [] \<and> level (hd rest) = nestLevel s - 1
            then vstates s' vp = st\<lparr>level := nestLevel s - 1\<rparr> # tl rest \<and>
                 changesStack s' = Some fs
            else vstates s' vp = st\<lparr>level := nestLevel s - 1\<rparr> # rest \<and>
                 changesStack s' =
                   (case fs of [] \<Rightarrow> Some []
                    | csn # r \<Rightarrow> Some (csn\<lparr>changedVarsList := vp # changedVarsList csn\<rparr> # r)))"
  using assms
  by (cases rest; cases fs)
     (auto simp: releaseSavepoint_def obj_states_obs prim_map isObjectChangedInUpperTrans_def
        changesStack_is_empty_def addToChangesStackUpperLevel_def push_changed_def
        GetCurrentTransactionNestLevel_def vstates_def split: option.splits)

lemma release_pack:
  assumes "pstates s k = st # rest" and "level st = nestLevel s"
    and "changesStack s = Some fs" and "is_valid st \<or> (rest \<noteq> [] \<and> fs \<noteq> [])"
  shows "\<exists>s'. releaseSavepoint (PackObj k) sub s = Inr ((), s') \<and>
           (if rest \<noteq> [] \<and> level (hd rest) = nestLevel s - 1
            then pstates s' k = st\<lparr>level := nestLevel s - 1\<rparr> # tl rest \<and>
                 changesStack s' = Some fs
            else pstates s' k = st\<lparr>level := nestLevel s - 1\<rparr> # rest \<and>
                 changesStack s' =
                   (case fs of [] \<Rightarrow> Some []
                    | csn # r \<Rightarrow> Some (csn\<lparr>changedPacksList := k # changedPacksList csn\<rparr> # r)))"
proof -
  have "pack_present s k"
    using assms(1) by (auto simp: pstates_def pack_present_def split: option.splits)
  then show ?thesis
    using assms
    by (cases rest; cases fs)
       (auto simp: releaseSavepoint_def obj_states_obs prim_map isObjectChangedInUpperTrans_def
          changesStack_is_empty_def addToChangesStackUpperLevel_def push_changed_def
          GetCurrentTransactionNestLevel_def)
qed

lemmas run_defs = variable_set_def createPackage_def createVariableInternal_def
  ensurePackagesHashExists_def find_package_def hash_enter_package_def initObjectHistory_def
  map_package_def map_variable_def map_htab_def pack_htab_def makePackHTAB_def
  isObjectChangedInCurrentTrans_def addToChangesStack_def prepareChangesStack_def
  pushChangesStack_def obj_states_def find_variable_def GetCurrentTransactionNestLevel_def
  set_head_level_def set_head_valid_def hash_enter_variable_def createSavepoint_def
  upd_trans_var_num_def GetActualState_def GetActualValue_scalar_def set_scalar_def
  push_changed_def zero_VarState_def copyValue_def datumCopy_def hdr_def
  host_savepoint_def host_release_def host_commit_def pgvSubTransCallback_def
  pgvTransCallback_def processChanges_def applyAction_step_def releaseSavepoint_def
  isObjectChangedInUpperTrans_def changesStack_is_empty_def removeState_def dec_head_level_def
  remove_variables_level_def remove_packages_level_def remove_variables_if_def
  remove_packages_if_def freeStatsLists_def addToChangesStackUpperLevel_def
  resetVariablesCache_def removeObject_def

lemma commit_fold_result:
  assumes "length p \<le> 62" and "length v \<le> 62"
  shows "\<exists>s'. commit_fold p v T x1 x2 = Inr ((), s') \<and>
     vstates s' (key_of p, True, key_of v) =
       [\<lparr>is_valid = True, level = 0, scalar = \<lparr>datum_value = x2, is_null = False\<rparr>,
         recordv = \<lparr>tupdesc = None, rhash = []\<rparr>\<rparr>]"
  using assms
  apply (simp add: commit_fold_def getKeyFromName_accepts fresh_session_def)
  apply (simp add: run_defs getKeyFromName_accepts key_of_def vstates_def
      numeral_2_eq_2 eval_nat_numeral)
  done

lemmas obs_defs = vstates_def pstates_def tab_keys_def find_variable_def find_package_def
  pack_htab_def key_of_def


text \<open>
  C2. Setting a transactional scalar variable at top level, setting it again inside a
  subtransaction, releasing the subtransaction and committing leaves exactly one state on the
  variable's stack: the inner value, at level 0. The release rule itself, for a variable and for
  a package whose head is at the current level: the call returns; when the state beneath the head
  is at the parent level it is discarded and the changes stack is left alone; otherwise the head
  is kept above the older states and the object is added to the top frame of the changes stack
  (the parent's frame at that point); in both cases the head now carries the parent level.
\<close>

theorem C2_commit_folds:
  "(length p \<le> 62 \<and> length v \<le> 62 \<longrightarrow>
      (\<exists>s'. commit_fold p v T x1 x2 = Inr ((), s') \<and>
         vstates s' (key_of p, True, key_of v) =
           [\<lparr>is_valid = True, level = 0, scalar = \<lparr>datum_value = x2, is_null = False\<rparr>,
             recordv = \<lparr>tupdesc = None, rhash = []\<rparr>\<rparr>])) \<and>
   (vstates s vp = st # rest \<and> level st = nestLevel s \<and> changesStack s = Some fs \<and>
    (is_valid st \<or> (rest \<noteq> [] \<and> fs \<noteq> [])) \<longrightarrow>
      (\<exists>s'. releaseSavepoint (VarObj vp) sub s = Inr ((), s') \<and>
           (if rest \<noteq> [] \<and> level (hd rest) = nestLevel s - 1
            then vstates s' vp = st\<lparr>level := nestLevel s - 1\<rparr> # tl rest \<and>
                 changesStack s' = Some fs
            else vstates s' vp = st\<lparr>level := nestLevel s - 1\<rparr> # rest \<and>
                 changesStack s' =
                   (case fs of [] \<Rightarrow> Some []
                    | csn # r \<Rightarrow> Some (csn\<lparr>changedVarsList := vp # changedVarsList csn\<rparr> # r))))) \<and>
   (pstates s k = pst # prest \<and> level pst = nestLevel s \<and> changesStack s = Some fs \<and>
    (is_valid pst \<or> (prest \<noteq> [] \<and> fs \<noteq> [])) \<longrightarrow>
      (\<exists>s'. releaseSavepoint (PackObj k) sub s = Inr ((), s') \<and>
           (if prest \<noteq> [] \<and> level (hd prest) = nestLevel s - 1
            then pstates s' k = pst\<lparr>level := nestLevel s - 1\<rparr> # tl prest \<and>
                 changesStack s' = Some fs
            else pstates s' k = pst\<lparr>level := nestLevel s - 1\<rparr> # prest \<and>
                 changesStack s' =
                   (case fs of [] \<Rightarrow> Some []
                    | csn # r \<Rightarrow> Some (csn\<lparr>changedPacksList := k # changedPacksList csn\<rparr> # r)))))"
  using commit_fold_result [of p v T x1 x2] release_var [of s vp st rest fs sub]
    release_pack [of s k pst prest fs sub]
  by blast

theorem C2_commit_folds_witness:
  "(\<exists>s'. commit_fold ''p'' ''x'' 23 1 2 = Inr ((), s') \<and>
         vstates s' (''p'', True, ''x'') =
           [\<lparr>is_valid = True, level = 0, scalar = \<lparr>datum_value = 2, is_null = False\<rparr>,
             recordv = \<lparr>tupdesc = None, rhash = []\<rparr>\<rparr>]) \<and>
   (\<exists>s'. releaseSavepoint (VarObj (''p'', True, ''x'')) True ex_release = Inr ((), s') \<and>
         vstates s' (''p'', True, ''x'') =
           [\<lparr>is_valid = True, level = 1, scalar = \<lparr>datum_value = 2, is_null = False\<rparr>,
             recordv = \<lparr>tupdesc = None, rhash = []\<rparr>\<rparr>] \<and>
         changesStack s' = changesStack ex_release) \<and>
   (\<exists>s'. releaseSavepoint (PackObj ''p'') True ex_release = Inr ((), s') \<and>
         pstates s' ''p'' = [\<lparr>is_valid = True, level = 1, trans_var_num = 1\<rparr>] \<and>
         changesStack s' = changesStack ex_release)"
  using C2_commit_folds [of "''p''" "''x''" 23 1 2 ex_release "(''p'', True, ''x'')"
      "\<lparr>is_valid = True, level = 2, scalar = \<lparr>datum_value = 2, is_null = False\<rparr>,
        recordv = \<lparr>tupdesc = None, rhash = []\<rparr>\<rparr>"
      "[\<lparr>is_valid = True, level = 1, scalar = \<lparr>datum_value = 1, is_null = False\<rparr>,
        recordv = \<lparr>tupdesc = None, rhash = []\<rparr>\<rparr>]"
      "[\<lparr>changedVarsList = [(''p'', True, ''x'')], changedPacksList = [''p'']\<rparr>]"
      True "''p''" "\<lparr>is_valid = True, level = 2, trans_var_num = 1\<rparr>"
      "[\<lparr>is_valid = True, level = 1, trans_var_num = 1\<rparr>]"]
  by (simp add: ex_release_def obs_defs)

section \<open>Rollback of a package that holds regular variables (C6)\<close>

text \<open>
  C6. Rolling back a package whose only state is the one being popped, while the package still
  holds at least one regular variable, returns and leaves the package in the table with exactly
  one fresh state: valid, at the level below the current one, with no transactional variables
  counted. The package is added to the top frame of the changes stack when there is one, and
  nothing else of the package (its name, its two variable tables) changes.
\<close>

theorem C6_package_survives:
  assumes "find_package s k = Some pack" and "states pack = [st]"
    and "0 < numOfRegVars pack"
    and "changesStack s = Some fs"
  shows "\<exists>s'. rollbackSavepoint (PackObj k) sub s = Inr ((), s') \<and>
           find_package s' k =
             Some (pack\<lparr>states := [\<lparr>is_valid = True, level = nestLevel s - 1, trans_var_num = 0\<rparr>]\<rparr>) \<and>
           changesStack s' =
             (case fs of [] \<Rightarrow> Some []
              | csn # rest \<Rightarrow> Some (csn\<lparr>changedPacksList := k # changedPacksList csn\<rparr> # rest))"
  using assms
  by (cases fs)
     (simp_all add: rollbackSavepoint_def obj_states_def removeState_def initObjectHistory_def
      set_head_level_def changesStack_is_empty_def addToChangesStackUpperLevel_def
      push_changed_def numOfRegVars_def GetCurrentTransactionNestLevel_def pack_htab_def)

theorem C6_package_survives_witness:
  "\<exists>s'. rollbackSavepoint (PackObj ''p'') True ex_regular = Inr ((), s') \<and>
      pstates s' ''p'' = [\<lparr>is_valid = True, level = 1, trans_var_num = 0\<rparr>] \<and>
      tab_keys s' ''p'' False = Some [''r''] \<and>
      changesStack s' = Some [\<lparr>changedVarsList = [], changedPacksList = [''p'']\<rparr>]"
  using C6_package_survives [of ex_regular "''p''"
      "the (find_package ex_regular ''p'')"
      "\<lparr>is_valid = True, level = 2, trans_var_num = 0\<rparr>"
      "[\<lparr>changedVarsList = [], changedPacksList = []\<rparr>]" True]
  by (auto simp: ex_regular_def obs_defs numOfRegVars_def)

section \<open>Transactionality conflict (C7)\<close>

text \<open>
  The failed call of the claim is not free of effects when it is \<open>variable_set\<close>: the package
  is created or prepared first. In the store holding only the transactional variable \<open>x\<close> of
  package \<open>p\<close>, setting \<open>x\<close> as a regular variable raises the conflict, and the store that is
  left has gained the (empty) table of regular variables of \<open>p\<close>, which did not exist before.
\<close>

theorem C7_counterexample:
  "variable_set ''p'' ''x'' 23 1 False True fresh_session = Inr ((), ex_tx) \<and>
   variable_set ''p'' ''x'' 23 2 False False ex_tx
     = Inl (TransactionalityConflict, makePackHTAB ''p'' False ex_tx) \<and>
   tab_keys ex_tx ''p'' False = None \<and>
   tab_keys (makePackHTAB ''p'' False ex_tx) ''p'' False = Some []"
  by code_simp

text \<open>
  C7 (amended). When the name is present in the package's table of the opposite
  transactionality, \<open>createVariableInternal\<close> raises TransactionalityConflict and leaves the store
  exactly as it was, for either value of the flag. \<open>variable_set\<close> then fails with the same error,
  and the store it leaves is the one produced by its preceding \<open>createPackage\<close>.
\<close>

theorem C7_conflict:
  "(getKeyFromName nm = Inr key \<and> find_package s pk = Some pack \<and>
    pack_htab pack (\<not> is_trans) = Some h \<and> map_of h key = Some var \<longrightarrow>
      createVariableInternal pk nm typ is_rec is_trans s = Inl (TransactionalityConflict, s)) \<and>
   (createPackage pn is_trans s = Inr (pk, s1) \<and>
    getKeyFromName nm = Inr key \<and> find_package s1 pk = Some pack1 \<and>
    pack_htab pack1 (\<not> is_trans) = Some h1 \<and> map_of h1 key = Some var1 \<longrightarrow>
      variable_set pn nm typ v isnull is_trans s = Inl (TransactionalityConflict, s1))"
  by (simp add: variable_set_def createVariableInternal_def)

theorem C7_conflict_witness:
  "createVariableInternal ''p'' ''x'' 23 False False ex_tx
     = Inl (TransactionalityConflict, ex_tx) \<and>
   variable_set ''p'' ''x'' 23 2 False False ex_tx
     = Inl (TransactionalityConflict, makePackHTAB ''p'' False ex_tx) \<and>
   createVariableInternal ''p'' ''r'' 23 False True ex_regular
     = Inl (TransactionalityConflict, ex_regular) \<and>
   variable_set ''p'' ''r'' 23 2 False True ex_regular
     = Inl (TransactionalityConflict, snd (projr (createPackage ''p'' True ex_regular)))"
proof -
  let ?t1 = "makePackHTAB ''p'' False ex_tx"
  let ?r1 = "snd (projr (createPackage ''p'' True ex_regular))"
  let ?P = "\<lambda>s. the (find_package s ''p'')"
  let ?H = "\<lambda>s b. the (pack_htab (?P s) b)"
  have tx: "getKeyFromName ''x'' = Inr ''x'' \<and> find_package ex_tx ''p'' = Some (?P ex_tx) \<and>
      pack_htab (?P ex_tx) (\<not> False) = Some (?H ex_tx True) \<and>
      map_of (?H ex_tx True) ''x'' = Some (the (map_of (?H ex_tx True) ''x''))"
    by code_simp
  have tx1: "createPackage ''p'' False ex_tx = Inr (''p'', ?t1) \<and>
      find_package ?t1 ''p'' = Some (?P ?t1) \<and>
      pack_htab (?P ?t1) (\<not> False) = Some (?H ?t1 True) \<and>
      map_of (?H ?t1 True) ''x'' = Some (the (map_of (?H ?t1 True) ''x''))"
    by code_simp
  have rg: "getKeyFromName ''r'' = Inr ''r'' \<and>
      find_package ex_regular ''p'' = Some (?P ex_regular) \<and>
      pack_htab (?P ex_regular) (\<not> True) = Some (?H ex_regular False) \<and>
      map_of (?H ex_regular False) ''r'' = Some (the (map_of (?H ex_regular False) ''r''))"
    by code_simp
  have rg1: "createPackage ''p'' True ex_regular = Inr (''p'', ?r1) \<and>
      find_package ?r1 ''p'' = Some (?P ?r1) \<and>
      pack_htab (?P ?r1) (\<not> True) = Some (?H ?r1 False) \<and>
      map_of (?H ?r1 False) ''r'' = Some (the (map_of (?H ?r1 False) ''r''))"
    by code_simp
  show ?thesis
    using C7_conflict [of "''x''" "''x''" ex_tx "''p''" "?P ex_tx" False "?H ex_tx True"
        "the (map_of (?H ex_tx True) ''x'')" 23 False "''p''" ?t1 "?P ?t1" "?H ?t1 True"
        "the (map_of (?H ?t1 True) ''x'')" 2 False]
      C7_conflict [of "''r''" "''r''" ex_regular "''p''" "?P ex_regular" True
        "?H ex_regular False" "the (map_of (?H ex_regular False) ''r'')" 23 False "''p''" ?r1
        "?P ?r1" "?H ?r1 False" "the (map_of (?H ?r1 False) ''r'')" 2 False]
      tx tx1 rg rg1
    by simp
qed

section \<open>The cursor registry at executor end and at transaction end (C8)\<close>

lemma fold_hash_seq_term:
  "fold (\<lambda>entry. hash_seq_term (f entry)) es s =
     s\<lparr>seq_scans := filter (\<lambda>x. x \<notin> f ` set es) (seq_scans s)\<rparr>"
proof (induction es arbitrary: s)
  case Nil
  then show ?case by simp
next
  case (Cons e es)
  have "filter (\<lambda>x. x \<notin> f ` set es) (removeAll (f e) xs) =
        filter (\<lambda>x. x \<noteq> f e \<and> x \<notin> f ` set es) xs" for xs
    by (induction xs) auto
  then show ?case
    using Cons by (simp add: hash_seq_term_def)
qed

lemma freeStatsLists_eq:
  "freeStatsLists s =
     s\<lparr>seq_scans := filter (\<lambda>x. x \<notin> status ` set (variables_stats s) \<and>
                                x \<notin> pstatus ` set (packages_stats s)) (seq_scans s),
       variables_stats := [], packages_stats := []\<rparr>"
  by (simp add: freeStatsLists_def fold_hash_seq_term Let_def)

lemma pgvTransCallback_registry:
  assumes "pgvTransCallback ev s = Inr ((), s')"
    and "ev = XACT_EVENT_PRE_COMMIT \<or> ev = XACT_EVENT_ABORT"
  shows "variables_stats s' = [] \<and> packages_stats s' = []"
  using assms
  by (auto simp: pgvTransCallback_def bnd_eq_Inr freeStatsLists_eq split: if_splits)

lemma hash_seq_term_fctx [simp]: "fctx_cells (hash_seq_term st s) = fctx_cells s"
  by (simp add: hash_seq_term_def)

lemma clear_fctx_cells:
  "map_of (fctx_cells (VariableStatEntry_clear_fctx e s)) a =
     (if user_fctx e = Some a then Some None else map_of (fctx_cells s) a)"
  by (auto simp: VariableStatEntry_clear_fctx_def update_conv' split: option.splits)

lemma list_remove_if_vars_keeps_null:
  "map_of (fctx_cells s) a = Some None \<Longrightarrow>
   map_of (fctx_cells (snd (list_remove_if_vars eq mf tm es s))) a = Some None"
  by (induction eq mf tm es s rule: list_remove_if_vars.induct)
     (simp_all add: Let_def clear_fctx_cells split_beta)

lemma list_remove_if_vars_clears:
  "e \<in> set es \<Longrightarrow> eq e \<Longrightarrow> user_fctx e = Some a \<Longrightarrow>
   map_of (fctx_cells (snd (list_remove_if_vars eq False tm es s))) a = Some None"
proof (induction es arbitrary: s)
  case Nil
  then show ?case by simp
next
  case (Cons x es)
  show ?case
  proof (cases "eq x")
    case True
    show ?thesis
    proof (cases "x = e")
      case True
      with Cons.prems \<open>eq x\<close> show ?thesis
        by (simp add: Let_def list_remove_if_vars_keeps_null clear_fctx_cells)
    next
      case False
      with Cons \<open>eq x\<close> show ?thesis by (simp add: Let_def)
    qed
  next
    case False
    with Cons show ?thesis by (auto simp: split_beta)
  qed
qed

lemma remove_variables_level_clears:
  "e \<in> set (variables_stats s) \<Longrightarrow> levels e = l \<Longrightarrow> user_fctx e = Some a \<Longrightarrow>
   map_of (fctx_cells (remove_variables_level l s)) a = Some None"
  using list_remove_if_vars_clears [of e "variables_stats s" "\<lambda>e. levels e = l" a False s]
  by (simp add: remove_variables_level_def remove_variables_if_def split_beta)

subsection \<open>The registry through the callbacks\<close>

lemma reg_le_refl [simp]: "reg_le s s"
  by (simp add: reg_le_def)

lemma reg_le_trans: "reg_le s s1 \<Longrightarrow> reg_le s1 s2 \<Longrightarrow> reg_le s s2"
  unfolding reg_le_def by blast

lemma reg_le_fields:
  "reg_le s s1 \<Longrightarrow> seq_scans s2 = seq_scans s1 \<Longrightarrow> variables_stats s2 = variables_stats s1 \<Longrightarrow>
   packages_stats s2 = packages_stats s1 \<Longrightarrow> reg_le s s2"
  by (simp add: reg_le_def)

lemma reg_le_if:
  "(c \<Longrightarrow> reg_le s a) \<Longrightarrow> (\<not> c \<Longrightarrow> reg_le s b) \<Longrightarrow> reg_le s (if c then a else b)"
  by simp

lemma keeps_Inr: "reg_le s s' \<Longrightarrow> keeps_reg s (Inr (a, s'))"
  by (simp add: keeps_reg_def)

lemma keeps_Inl: "keeps_reg s (Inl e)"
  by (simp add: keeps_reg_def)

lemma keeps_bnd:
  "keeps_reg s r \<Longrightarrow> (\<And>a s1. reg_le s s1 \<Longrightarrow> keeps_reg s (g a s1)) \<Longrightarrow> keeps_reg s (bnd r g)"
  by (auto simp: keeps_reg_def bnd_eq_Inr)

lemma keeps_if:
  "(c \<Longrightarrow> keeps_reg s a) \<Longrightarrow> (\<not> c \<Longrightarrow> keeps_reg s b) \<Longrightarrow> keeps_reg s (if c then a else b)"
  by simp

lemma keeps_option:
  "(x = None \<Longrightarrow> keeps_reg s a) \<Longrightarrow> (\<And>y. x = Some y \<Longrightarrow> keeps_reg s (b y)) \<Longrightarrow>
   keeps_reg s (case x of None \<Rightarrow> a | Some y \<Rightarrow> b y)"
  by (cases x) simp_all

lemma keeps_list:
  "(x = [] \<Longrightarrow> keeps_reg s a) \<Longrightarrow> (\<And>y ys. x = y # ys \<Longrightarrow> keeps_reg s (b y ys)) \<Longrightarrow>
   keeps_reg s (case x of [] \<Rightarrow> a | y # ys \<Rightarrow> b y ys)"
  by (cases x) simp_all

lemma keeps_objptr:
  "(\<And>k. x = PackObj k \<Longrightarrow> keeps_reg s (a k)) \<Longrightarrow> (\<And>vp. x = VarObj vp \<Longrightarrow> keeps_reg s (b vp)) \<Longrightarrow>
   keeps_reg s (case x of PackObj k \<Rightarrow> a k | VarObj vp \<Rightarrow> b vp)"
  by (cases x) simp_all

lemma keeps_prod:
  "(\<And>a b. x = (a, b) \<Longrightarrow> keeps_reg s (f a b)) \<Longrightarrow> keeps_reg s (case x of (a, b) \<Rightarrow> f a b)"
  by (cases x) simp_all

lemma keeps_sum:
  "(\<And>e. x = Inl e \<Longrightarrow> keeps_reg s (f e)) \<Longrightarrow> (\<And>y. x = Inr y \<Longrightarrow> keeps_reg s (g y)) \<Longrightarrow>
   keeps_reg s (case x of Inl e \<Rightarrow> f e | Inr y \<Rightarrow> g y)"
  by (cases x) simp_all

lemmas keeps_intros = keeps_Inr keeps_Inl keeps_bnd keeps_if keeps_option keeps_list keeps_objptr
  keeps_prod keeps_sum

lemma reg_le_prims:
  assumes "reg_le s0 s"
  shows "reg_le s0 (map_package k f s)" "reg_le s0 (map_variable vp g s)"
    "reg_le s0 (removeState obj i s)" "reg_le s0 (set_head_level obj l s)"
    "reg_le s0 (set_head_valid obj b s)" "reg_le s0 (initObjectHistory obj s)"
    "reg_le s0 (dec_head_level obj s)" "reg_le s0 (resetVariablesCache s)"
    "reg_le s0 (s\<lparr>changesStack := cs\<rparr>)" "reg_le s0 (s\<lparr>packagesHash := ph\<rparr>)"
    "reg_le s0 (savepoint obj s)"
  by (rule reg_le_fields [OF assms];
      cases obj; simp add: removeState_def set_head_level_def set_head_valid_def
        initObjectHistory_def dec_head_level_def resetVariablesCache_def savepoint_def)+

lemma list_remove_if_vars_reg:
  "set (seq_scans (snd (list_remove_if_vars eq mf tm es s))) \<subseteq> set (seq_scans s) \<and>
   variables_stats (snd (list_remove_if_vars eq mf tm es s)) = variables_stats s \<and>
   packages_stats (snd (list_remove_if_vars eq mf tm es s)) = packages_stats s \<and>
   (tm \<longrightarrow> (\<forall>e \<in> set es. e \<in> set (fst (list_remove_if_vars eq mf tm es s)) \<or>
       status e \<notin> set (seq_scans (snd (list_remove_if_vars eq mf tm es s)))))"
proof (induction eq mf tm es s rule: list_remove_if_vars.induct)
  case (1 eq match_first "term" s)
  then show ?case by simp
next
  case (2 eq match_first "term" entry rest s)
  define s2 where "s2 = VariableStatEntry_clear_fctx entry
                          (if term then hash_seq_term (status entry) s else s)"
  have f2: "set (seq_scans s2) \<subseteq> set (seq_scans s)" "variables_stats s2 = variables_stats s"
    "packages_stats s2 = packages_stats s" "term \<longrightarrow> status entry \<notin> set (seq_scans s2)"
    by (auto simp: s2_def VariableStatEntry_clear_fctx_def hash_seq_term_def split: option.splits)
  show ?case
  proof (cases "eq entry")
    case True
    show ?thesis
    proof (cases match_first)
      case T: True
      have E: "list_remove_if_vars eq match_first term (entry # rest) s = (rest, s2)"
        using True T by (simp add: Let_def s2_def)
      show ?thesis unfolding E using f2 by auto
    next
      case False
      have E: "list_remove_if_vars eq match_first term (entry # rest) s =
               list_remove_if_vars eq match_first term rest s2"
        using True False by (simp add: Let_def s2_def)
      from "2.IH"(1) [OF True refl refl False, folded s2_def] f2
      show ?thesis unfolding E by auto
    qed
  next
    case False
    from "2.IH"(2) [OF False] show ?thesis
      using False by (auto simp: split_beta)
  qed
qed

lemma reg_le_remove_variables_if:
  "reg_le s (remove_variables_if eq mf True s)"
  using list_remove_if_vars_reg [of eq mf True "variables_stats s" s]
  by (auto simp: reg_le_def remove_variables_if_def split_beta)

lemma keeps_checkers:
  assumes "reg_le s0 s"
  shows "keeps_reg s0 (isPackageEmpty k s)" "keeps_reg s0 (changesStack_is_empty s)"
    "keeps_reg s0 (isObjectChangedInUpperTrans obj s)" "keeps_reg s0 (GetActualState obj s)"
    "keeps_reg s0 (isObjectChangedInCurrentTrans obj s)"
    "keeps_reg s0 (createSavepoint obj s)" "keeps_reg s0 (addToChangesStackUpperLevel obj s)"
  using assms reg_le_prims(1,2,9) [OF assms]
  by (auto simp: keeps_reg_def step_Inr split: objptr.splits)

lemma keeps_removeObject:
  assumes "reg_le s0 s"
  shows "keeps_reg s0 (removeObject obj s)"
proof -
  have a: "reg_le s0 (remove_variables_variable obj' s1)" if "reg_le s0 s1" for s1 obj'
    using that unfolding remove_variables_variable_def
    by (rule reg_le_trans [OF _ reg_le_remove_variables_if])
  show ?thesis
    unfolding removeObject_def
    by (intro keeps_intros keeps_checkers a reg_le_prims reg_le_if assms)
qed

lemma keeps_rollbackSavepoint:
  assumes "reg_le s0 s"
  shows "keeps_reg s0 (rollbackSavepoint obj sub s)"
  unfolding rollbackSavepoint_def Let_def
  by (intro keeps_intros keeps_checkers keeps_removeObject reg_le_prims assms)

lemma keeps_releaseSavepoint:
  assumes "reg_le s0 s"
  shows "keeps_reg s0 (releaseSavepoint obj sub s)"
  unfolding releaseSavepoint_def Let_def
  by (intro keeps_intros keeps_checkers keeps_removeObject reg_le_prims assms)

lemma keeps_applyAction_step:
  assumes "reg_le s0 s"
  shows "keeps_reg s0 (applyAction_step action obj sub s)"
  unfolding applyAction_step_def
  by (cases action; simp;
      intro keeps_intros keeps_checkers keeps_rollbackSavepoint keeps_releaseSavepoint
        reg_le_prims assms)

lemma keeps_applyAction:
  "reg_le s0 s \<Longrightarrow> keeps_reg s0 (applyAction action objs sub s)"
proof (induction objs arbitrary: s)
  case Nil
  then show ?case by (simp add: keeps_Inr)
next
  case (Cons obj objs)
  from keeps_applyAction_step [OF Cons.prems, of action obj sub]
  show ?case
    by (auto simp: keeps_reg_def split: sum.splits dest!: Cons.IH)
qed

lemma keeps_processChanges:
  assumes "reg_le s0 s"
  shows "keeps_reg s0 (processChanges action sub s)"
  unfolding processChanges_def Let_def
  by (intro keeps_intros keeps_checkers keeps_applyAction reg_le_prims reg_le_if assms)

lemma pgvTransCallback_terminates:
  assumes run: "pgvTransCallback ev s = Inr ((), s')"
    and ev: "ev = XACT_EVENT_PRE_COMMIT \<or> ev = XACT_EVENT_ABORT"
  shows "variables_stats s' = []" and "packages_stats s' = []"
    and "e \<in> set (variables_stats s) \<Longrightarrow> status e \<notin> set (seq_scans s')"
    and "pe \<in> set (packages_stats s) \<Longrightarrow> pstatus pe \<notin> set (seq_scans s')"
proof -
  define r where "r = (if changesStack s \<noteq> None then
            (case ev of
               XACT_EVENT_PRE_COMMIT \<Rightarrow> processChanges RELEASE_SAVEPOINT False s
             | XACT_EVENT_ABORT \<Rightarrow> processChanges ROLLBACK_TO_SAVEPOINT False s
             | XACT_EVENT_PARALLEL_PRE_COMMIT \<Rightarrow> processChanges RELEASE_SAVEPOINT False s
             | XACT_EVENT_PARALLEL_ABORT \<Rightarrow> processChanges ROLLBACK_TO_SAVEPOINT False s
             | _ \<Rightarrow> Inr ((), s))
          else Inr ((), s))"
  have k: "keeps_reg s r"
    unfolding r_def using ev
    by (auto intro!: keeps_if keeps_Inr keeps_processChanges)
  from run ev obtain s1 where r: "r = Inr ((), s1)" and s': "s' = freeStatsLists s1"
    unfolding pgvTransCallback_def r_def [symmetric] by (auto simp: bnd_eq_Inr)
  from k r have le: "reg_le s s1" by (simp add: keeps_reg_def)
  show "variables_stats s' = []" "packages_stats s' = []"
    by (simp_all add: s' freeStatsLists_eq)
  show "status e \<notin> set (seq_scans s')" if "e \<in> set (variables_stats s)"
    using le that unfolding s' freeStatsLists_eq reg_le_def by auto
  show "pstatus pe \<notin> set (seq_scans s')" if "pe \<in> set (packages_stats s)"
    using le that unfolding s' freeStatsLists_eq reg_le_def by auto
qed

text \<open>
  Emptying the registry does not touch the consumers' cells. In \<open>ex_scan\<close> the consumer of the
  variable scan still points at scan 7 after executor end and after commit although the registry
  is empty, and the consumer of the package scan still points at scan 8 after abort.
\<close>

theorem C8_counterexample:
  "map_of (fctx_cells ex_scan) 0 = Some (Some 7) \<and>
   variables_stats (variable_ExecutorEnd ex_scan) = [] \<and>
   map_of (fctx_cells (variable_ExecutorEnd ex_scan)) 0 = Some (Some 7) \<and>
   (case pgvTransCallback XACT_EVENT_PRE_COMMIT ex_scan of
      Inr (u, s') \<Rightarrow> variables_stats s' = [] \<and> map_of (fctx_cells s') 0 = Some (Some 7)
    | Inl e \<Rightarrow> False) \<and>
   (case pgvTransCallback XACT_EVENT_ABORT ex_scan of
      Inr (u, s') \<Rightarrow> packages_stats s' = [] \<and> map_of (fctx_cells s') 1 = Some (Some 8)
    | Inl e \<Rightarrow> False)"
  by code_simp

text \<open>
  C8 (amended). At executor end the registry holds no entry, every scan that was registered is
  terminated, and the consumers' cells are exactly as before. After the commit or abort callback
  has returned the registry holds no entry either, and every scan that was registered when the
  callback was entered is terminated. The back-pointer of a consumer is nulled on
  the other path, where entries are removed one by one: an entry of the level being closed that
  \<open>remove_variables_level\<close> removes has its consumer's cell set to null.
\<close>

theorem C8_registry_emptied:
  "variables_stats (variable_ExecutorEnd s) = [] \<and>
   packages_stats (variable_ExecutorEnd s) = [] \<and>
   (\<forall>e \<in> set (variables_stats s). status e \<notin> set (seq_scans (variable_ExecutorEnd s))) \<and>
   (\<forall>e \<in> set (packages_stats s). pstatus e \<notin> set (seq_scans (variable_ExecutorEnd s))) \<and>
   fctx_cells (variable_ExecutorEnd s) = fctx_cells s \<and>
   ((ev = XACT_EVENT_PRE_COMMIT \<or> ev = XACT_EVENT_ABORT) \<and>
    pgvTransCallback ev s = Inr ((), s') \<longrightarrow>
      variables_stats s' = [] \<and> packages_stats s' = [] \<and>
      (\<forall>e \<in> set (variables_stats s). status e \<notin> set (seq_scans s')) \<and>
      (\<forall>e \<in> set (packages_stats s). pstatus e \<notin> set (seq_scans s'))) \<and>
   (entry \<in> set (variables_stats s) \<and> levels entry = l \<and> user_fctx entry = Some a \<longrightarrow>
      map_of (fctx_cells (remove_variables_level l s)) a = Some None)"
  using pgvTransCallback_terminates [of ev s s'] remove_variables_level_clears [of entry s l a]
  by (auto simp: variable_ExecutorEnd_def freeStatsLists_eq)

theorem C8_registry_emptied_witness:
  "variables_stats (variable_ExecutorEnd ex_scan) = [] \<and>
   packages_stats (variable_ExecutorEnd ex_scan) = [] \<and>
   7 \<notin> set (seq_scans (variable_ExecutorEnd ex_scan)) \<and>
   8 \<notin> set (seq_scans (variable_ExecutorEnd ex_scan)) \<and>
   fctx_cells (variable_ExecutorEnd ex_scan) = [(0, Some 7), (1, Some 8)] \<and>
   seq_scans ex_scan = [8, 7] \<and>
   variables_stats (snd (projr (pgvTransCallback XACT_EVENT_PRE_COMMIT ex_scan))) = [] \<and>
   packages_stats (snd (projr (pgvTransCallback XACT_EVENT_PRE_COMMIT ex_scan))) = [] \<and>
   7 \<notin> set (seq_scans (snd (projr (pgvTransCallback XACT_EVENT_PRE_COMMIT ex_scan)))) \<and>
   8 \<notin> set (seq_scans (snd (projr (pgvTransCallback XACT_EVENT_PRE_COMMIT ex_scan)))) \<and>
   variables_stats (snd (projr (pgvTransCallback XACT_EVENT_ABORT ex_scan))) = [] \<and>
   packages_stats (snd (projr (pgvTransCallback XACT_EVENT_ABORT ex_scan))) = [] \<and>
   7 \<notin> set (seq_scans (snd (projr (pgvTransCallback XACT_EVENT_ABORT ex_scan)))) \<and>
   8 \<notin> set (seq_scans (snd (projr (pgvTransCallback XACT_EVENT_ABORT ex_scan)))) \<and>
   map_of (fctx_cells (remove_variables_level 1 ex_scan)) 0 = Some None"
proof -
  let ?e = "\<lparr>status = 7, variable = (''p'', True, ''x''), entry_package = ''p'', levels = 1,
             user_fctx = Some 0\<rparr>"
  let ?s' = "snd (projr (pgvTransCallback XACT_EVENT_PRE_COMMIT ex_scan))"
  let ?s'' = "snd (projr (pgvTransCallback XACT_EVENT_ABORT ex_scan))"
  have run: "pgvTransCallback XACT_EVENT_PRE_COMMIT ex_scan = Inr ((), ?s')"
    "pgvTransCallback XACT_EVENT_ABORT ex_scan = Inr ((), ?s'')"
    by code_simp+
  have vs: "variables_stats ex_scan = [?e]"
    and ps: "packages_stats ex_scan = [\<lparr>pstatus = 8, plevels = 1, puser_fctx = Some 1\<rparr>]"
    and cells: "fctx_cells ex_scan = [(0, Some 7), (1, Some 8)]"
    and scans: "seq_scans ex_scan = [8, 7]"
    by (simp_all add: ex_scan_def)
  show ?thesis
    using C8_registry_emptied [of ex_scan XACT_EVENT_PRE_COMMIT ?s' ?e 1 0]
      C8_registry_emptied [of ex_scan XACT_EVENT_ABORT ?s'' ?e 1 0] run vs ps cells scans
    by simp
qed

section \<open>Closed forms: library\<close>

section \<open>The frames of the changes stack\<close>

lemma push_levels_Suc:
  "push_levels (Suc n) s =
     s\<lparr>changesStack := Some (replicate (Suc n) empty_frame
              @ (case changesStack s of None \<Rightarrow> [] | Some st \<Rightarrow> st))\<rparr>"
proof (induction n arbitrary: s)
  case 0
  then show ?case by (simp add: pushChangesStack_def empty_frame_def)
next
  case (Suc n)
  have "push_levels (Suc (Suc n)) s = push_levels (Suc n) (pushChangesStack s)"
    by simp
  also have "\<dots> = s\<lparr>changesStack := Some (replicate (Suc (Suc n)) empty_frame
              @ (case changesStack s of None \<Rightarrow> [] | Some st \<Rightarrow> st))\<rparr>"
    unfolding Suc by (simp add: pushChangesStack_def empty_frame_def replicate_app_Cons_same)
  finally show ?case .
qed

lemma prepareChangesStack_eq: "0 < nestLevel s \<Longrightarrow> prepareChangesStack s = prep s"
  using push_levels_Suc [of "nat (nestLevel s) - 1" s]
  by (auto simp: prepareChangesStack_def frames_def prep_def
      GetCurrentTransactionNestLevel_def split: option.splits)

lemma prep_id [simp]: "changesStack s \<noteq> None \<Longrightarrow> prep s = s"
  by (auto simp: prep_def frames_def)

lemma frames_Some [simp]: "changesStack s = Some fs \<Longrightarrow> frames s = fs"
  by (simp add: frames_def)

lemma frames_None: "changesStack s = None \<Longrightarrow> 0 < nestLevel s \<Longrightarrow> frames s \<noteq> []"
  by (simp add: frames_def)

lemma prep_fields [simp]:
  "packagesHash (prep s) = packagesHash s"
  "nestLevel (prep s) = nestLevel s"
  "changesStack (prep s) = Some (frames s)"
  "frames (prep s) = frames s"
  "variables_stats (prep s) = variables_stats s"
  "packages_stats (prep s) = packages_stats s"
  "find_package (prep s) = find_package s"
  "find_variable (prep s) = find_variable s"
  by (simp_all add: prep_def frames_def fun_eq_iff)

lemma push_frame_fields [simp]:
  "packagesHash (push_frame obj s) = packagesHash s"
  "nestLevel (push_frame obj s) = nestLevel s"
  "changesStack (push_frame obj s) = Some (push_changed obj (hd (frames s)) # tl (frames s))"
  "frames (push_frame obj s) = push_changed obj (hd (frames s)) # tl (frames s)"
  "variables_stats (push_frame obj s) = variables_stats s"
  "packages_stats (push_frame obj s) = packages_stats s"
  "find_package (push_frame obj s) = find_package s"
  "find_variable (push_frame obj s) = find_variable s"
  by (simp_all add: push_frame_def frames_def fun_eq_iff)

lemma obs_frames [simp]:
  "pstates (push_frame obj s) = pstates s"
  "vstates (push_frame obj s) = vstates s"
  "tab_keys (push_frame obj s) = tab_keys s"
  "pack_present (push_frame obj s) = pack_present s"
  "vkind (push_frame obj s) = vkind s"
  "vrec (push_frame obj s) = vrec s"
  "pstates (prep s) = pstates s"
  "vstates (prep s) = vstates s"
  "tab_keys (prep s) = tab_keys s"
  "pack_present (prep s) = pack_present s"
  "vkind (prep s) = vkind s"
  "vrec (prep s) = vrec s"
  by (simp_all add: pstates_def vstates_def tab_keys_def pack_present_def vkind_def vrec_def
      fun_eq_iff)

section \<open>Rewritings of the states of one object\<close>

lemma pstates_absent: "\<not> pack_present s k \<Longrightarrow> pstates s k = []"
  by (auto simp: pstates_def pack_present_def)

lemma vstates_absent: "find_variable s vp = None \<Longrightarrow> vstates s vp = []"
  by (auto simp: vstates_def)

lemma vkind_None_iff [simp]: "vkind s vp = None \<longleftrightarrow> find_variable s vp = None"
  by (simp add: vkind_def)

lemma vkind_map_pstates [simp]: "vkind (map_pstates k g s) = vkind s"
  "vrec (map_pstates k g s) = vrec s"
  by (simp_all add: vkind_def vrec_def fun_eq_iff)

lemma vkind_map_vstates [simp]: "vkind (map_vstates vp g s) = vkind s"
  "vrec (map_vstates vp g s) = vrec s"
  by (auto simp: vkind_def vrec_def fun_eq_iff option.map_comp comp_def split: option.splits)

lemma frames_maps [simp]:
  "frames (map_pstates k g s) = frames s"
  "frames (map_vstates vp h s) = frames s"
  "frames (makePackHTAB k tr s) = frames s"
  "frames (hash_enter_variable vp var s) = frames s"
  by (simp_all add: frames_def split: option.splits)

lemma pstates_map_pstates_strict:
  "g [] = [] \<Longrightarrow>
   pstates (map_pstates k g s) k' = (if k' = k then g (pstates s k) else pstates s k')"
  by (cases "pack_present s k") (auto simp: pstates_absent)

lemma vstates_map_vstates_strict:
  "(\<And>var. g var [] = []) \<Longrightarrow>
   vstates (map_vstates vp g s) vp' =
     (if vp' = vp then g (the (find_variable s vp)) (vstates s vp) else vstates s vp')"
  by (cases "find_variable s vp") (auto simp: vstates_absent vstates_def)

lemma set_head_obs [simp]:
  "nestLevel (set_head_valid obj b s) = nestLevel s"
  "changesStack (set_head_valid obj b s) = changesStack s"
  "frames (set_head_valid obj b s) = frames s"
  "pack_present (set_head_valid obj b s) = pack_present s"
  "tab_keys (set_head_valid obj b s) = tab_keys s"
  "vkind (set_head_valid obj b s) = vkind s"
  "vrec (set_head_valid obj b s) = vrec s"
  "nestLevel (set_head_level obj l s) = nestLevel s"
  "changesStack (set_head_level obj l s) = changesStack s"
  "frames (set_head_level obj l s) = frames s"
  "pack_present (set_head_level obj l s) = pack_present s"
  "tab_keys (set_head_level obj l s) = tab_keys s"
  "vkind (set_head_level obj l s) = vkind s"
  "vrec (set_head_level obj l s) = vrec s"
  "nestLevel (savepoint obj s) = nestLevel s"
  "changesStack (savepoint obj s) = changesStack s"
  "frames (savepoint obj s) = frames s"
  "pack_present (savepoint obj s) = pack_present s"
  "tab_keys (savepoint obj s) = tab_keys s"
  "vkind (savepoint obj s) = vkind s"
  "vrec (savepoint obj s) = vrec s"
  by (cases obj; simp add: prim_map savepoint_def)+

lemma pstates_set_head [simp]:
  "pstates (set_head_valid obj b s) k =
     (if obj = PackObj k then map_head (\<lambda>st. st\<lparr>is_valid := b\<rparr>) (pstates s k) else pstates s k)"
  "pstates (set_head_level obj l s) k =
     (if obj = PackObj k then map_head (\<lambda>st. st\<lparr>level := l\<rparr>) (pstates s k) else pstates s k)"
  "pstates (savepoint obj s) k =
     (if obj = PackObj k then push_copy (\<lambda>st. st\<lparr>level := 0\<rparr>) (pstates s k) else pstates s k)"
  by (cases obj; simp add: prim_map savepoint_def pstates_map_pstates_strict del: pstates_map_pstates)+

lemma vstates_set_head [simp]:
  "vstates (set_head_valid obj b s) vp =
     (if obj = VarObj vp then map_head (\<lambda>st. st\<lparr>is_valid := b\<rparr>) (vstates s vp) else vstates s vp)"
  "vstates (set_head_level obj l s) vp =
     (if obj = VarObj vp then map_head (\<lambda>st. st\<lparr>level := l\<rparr>) (vstates s vp) else vstates s vp)"
  "vstates (savepoint obj s) vp =
     (if obj = VarObj vp then push_copy (sv_state (vrec s vp)) (vstates s vp) else vstates s vp)"
  by (cases obj; cases "find_variable s vp";
      simp add: prim_map savepoint_def vstates_absent vrec_def vstates_def)+

section \<open>The primitive steps as equations\<close>

lemma obj_states_Nil_iff [simp]:
  "obj_states s (VarObj vp) = [] \<longleftrightarrow> vstates s vp = []"
  "obj_states s (PackObj k) = [] \<longleftrightarrow> pstates s k = []"
  by (simp_all add: obj_states_obs)

lemma hd_obj_states [simp]:
  "vstates s vp \<noteq> [] \<Longrightarrow> hd (obj_states s (VarObj vp)) = hdr (hd (vstates s vp))"
  "pstates s k \<noteq> [] \<Longrightarrow> hd (obj_states s (PackObj k)) = hdr (hd (pstates s k))"
  by (simp_all add: obj_states_obs hd_map)

lemma isObjectChangedInCurrentTrans_eval:
  "isObjectChangedInCurrentTrans obj s =
     (if changesStack s = None then Inr (False, s)
      else if obj_states s obj = [] then Inl (Fault, s)
      else Inr (obj_changed s obj, s))"
  by (auto simp: isObjectChangedInCurrentTrans_def GetCurrentTransactionNestLevel_def
      obj_changed_def split: option.splits list.splits)

lemma GetActualState_eval:
  "GetActualState obj s =
     (if obj_states s obj = [] then Inl (Fault, s) else Inr (hd (obj_states s obj), s))"
  by (auto simp: GetActualState_def split: list.splits)

lemma sv_state_copyValue:
  "(copyValue prevState zero_VarState var)\<lparr>is_valid := is_valid prevState\<rparr>
     = sv_state (is_record var) prevState"
  by (simp add: sv_state_def copyValue_def datumCopy_def zero_VarState_def)

lemma createSavepoint_eval:
  "createSavepoint obj s =
     (if obj_states s obj = [] then Inl (Fault, s) else Inr ((), savepoint obj s))"
proof -
  have "(\<lambda>st :: PackState. \<lparr>is_valid = is_valid st, level = 0, trans_var_num = trans_var_num st\<rparr>)
          = (\<lambda>st. st\<lparr>level := 0\<rparr>)"
    by (rule ext) simp
  then show ?thesis
    by (cases obj)
       (auto simp: createSavepoint_def savepoint_def map_pstates_def map_vstates_def
          sv_state_copyValue obj_states_obs split: list.splits)
qed

lemma addToChangesStack_eval:
  "0 < nestLevel s \<Longrightarrow>
   addToChangesStack obj s =
     (if obj_states s obj = [] then Inl (Fault, prep s)
      else if level (hd (obj_states s obj)) = nestLevel s then Inr ((), prep s)
      else if frames s = [] then Inl (Fault, prep s)
      else Inr ((), set_head_level obj (nestLevel s) (push_frame obj s)))"
  by (cases "frames s")
     (auto simp: addToChangesStack_def prepareChangesStack_eq isObjectChangedInCurrentTrans_eval
        push_frame_def GetCurrentTransactionNestLevel_def obj_changed_def prep_def)

lemma obj_changed_simps:
  "obj_changed s (VarObj vp) \<longleftrightarrow>
     changesStack s \<noteq> None \<and> vstates s vp \<noteq> [] \<and> level (hd (vstates s vp)) = nestLevel s"
  "obj_changed s (PackObj k) \<longleftrightarrow>
     changesStack s \<noteq> None \<and> pstates s k \<noteq> [] \<and> level (hd (pstates s k)) = nestLevel s"
  by (auto simp: obj_changed_def)

lemma level_sv_state [simp]:
  "level (sv_state r st) = 0" "is_valid (sv_state r st) = is_valid st"
  by (simp_all add: sv_state_def zero_VarState_def)

text \<open>The idiom "unless changed in the current transaction: savepoint and register".\<close>

lemma touch_block:
  assumes "0 < nestLevel s"
  shows "bnd (isObjectChangedInCurrentTrans obj s) (\<lambda>changed s1.
           if \<not> changed then bnd (createSavepoint obj s1) (\<lambda>_. addToChangesStack obj)
           else Inr ((), s1)) =
         (if obj_states s obj = [] then Inl (Fault, s)
          else if \<not> obj_changed s obj \<and> frames s = [] then Inl (Fault, prep (savepoint obj s))
          else Inr ((), touch obj s))"
  using assms
  by (cases obj)
     (auto simp: isObjectChangedInCurrentTrans_eval createSavepoint_eval addToChangesStack_eval
        touch_def obj_changed_simps simp del: not_None_eq)

lemma createPackage_step_eval:
  assumes "0 < nestLevel s"
  shows "createPackage_step pk vk s =
         (if vstates s (pk, True, vk) = [] then Inl (Fault, s)
          else if \<not> obj_changed s (VarObj (pk, True, vk)) \<and> frames s = []
               then Inl (Fault, prep (savepoint (VarObj (pk, True, vk)) s))
          else Inr ((), inval_var pk vk s))"
  using assms
  by (auto simp: createPackage_step_def isObjectChangedInCurrentTrans_eval createSavepoint_eval
        addToChangesStack_eval GetActualState_eval inval_var_def
        touch_def obj_changed_simps simp del: not_None_eq)

section \<open>What the idiom leaves behind\<close>

lemma map_head_push_copy: "map_head g (push_copy f xs) = push_copy (\<lambda>x. g (f x)) xs"
  by (cases xs) simp_all

lemma touch_obs [simp]:
  "nestLevel (touch obj s) = nestLevel s"
  "pack_present (touch obj s) = pack_present s"
  "tab_keys (touch obj s) = tab_keys s"
  "vkind (touch obj s) = vkind s"
  "vrec (touch obj s) = vrec s"
  by (simp_all add: touch_def)

lemma frames_touch:
  "frames (touch obj s) =
     (if obj_changed s obj then frames s else push_changed obj (hd (frames s)) # tl (frames s))"
  "changesStack (touch obj s) =
     (if obj_changed s obj then changesStack s
      else Some (push_changed obj (hd (frames s)) # tl (frames s)))"
  by (simp_all add: touch_def)

lemma changesStack_touch_Some [simp]:
  "changesStack (touch obj s) \<noteq> None"
  "\<exists>y. changesStack (touch obj s) = Some y"
  by (auto simp: touch_def obj_changed_def)

lemma pstates_touch:
  "pstates (touch obj s) k =
     (if obj = PackObj k \<and> \<not> obj_changed s obj
      then push_copy (\<lambda>st. st\<lparr>level := nestLevel s\<rparr>) (pstates s k)
      else pstates s k)"
  by (auto simp: touch_def map_head_push_copy)

lemma vstates_touch:
  "vstates (touch obj s) vp =
     (if obj = VarObj vp \<and> \<not> obj_changed s obj
      then push_copy (\<lambda>st. (sv_state (vrec s vp) st)\<lparr>level := nestLevel s\<rparr>) (vstates s vp)
      else vstates s vp)"
  by (auto simp: touch_def map_head_push_copy)

lemma inval_var_obs [simp]:
  "nestLevel (inval_var pk vk s) = nestLevel s"
  "pack_present (inval_var pk vk s) = pack_present s"
  "tab_keys (inval_var pk vk s) = tab_keys s"
  "vkind (inval_var pk vk s) = vkind s"
  "vrec (inval_var pk vk s) = vrec s"
  "pstates (inval_var pk vk s) = pstates s"
  by (simp_all add: inval_var_def fun_eq_iff pstates_touch)

lemma frames_inval_var:
  "frames (inval_var pk vk s) =
     (if obj_changed s (VarObj (pk, True, vk)) then frames s
      else push_changed (VarObj (pk, True, vk)) (hd (frames s)) # tl (frames s))"
  by (simp add: inval_var_def frames_touch)

lemma changesStack_inval_var_Some [simp]:
  "changesStack (inval_var pk vk s) \<noteq> None"
  "\<exists>y. changesStack (inval_var pk vk s) = Some y"
  by (simp_all add: inval_var_def)

lemma vstates_inval_var:
  "vstates (inval_var pk vk s) vp =
     (if vp = (pk, True, vk)
      then (if obj_changed s (VarObj vp)
            then map_head (\<lambda>st. st\<lparr>is_valid := False\<rparr>) (vstates s vp)
            else push_copy (\<lambda>st. (sv_state (vrec s vp) st)\<lparr>level := nestLevel s, is_valid := False\<rparr>)
                   (vstates s vp))
      else vstates s vp)"
  by (auto simp: inval_var_def vstates_touch map_head_push_copy)

lemma createPackage_loop_Inr:
  "0 < nestLevel s \<Longrightarrow> createPackage_loop pk ks s = Inr (u, s') \<Longrightarrow>
   s' = fold (inval_var pk) ks s"
proof (induction ks arbitrary: s)
  case Nil
  then show ?case by simp
next
  case (Cons vk ks)
  from Cons.prems obtain s1 where s1: "createPackage_step pk vk s = Inr ((), s1)"
    and rest: "createPackage_loop pk ks s1 = Inr (u, s')"
    by (auto split: sum.splits)
  from s1 Cons.prems(1) have "s1 = inval_var pk vk s"
    by (simp add: createPackage_step_eval split: if_splits)
  with Cons.IH [of s1] rest Cons.prems(1) show ?case by simp
qed

lemma createPackage_loop_eval:
  "0 < nestLevel s \<Longrightarrow> frames s \<noteq> [] \<Longrightarrow>
   \<forall>vk \<in> set ks. vstates s (pk, True, vk) \<noteq> [] \<Longrightarrow>
   createPackage_loop pk ks s = Inr ((), fold (inval_var pk) ks s)"
proof (induction ks arbitrary: s)
  case Nil
  then show ?case by simp
next
  case (Cons vk ks)
  have "createPackage_step pk vk s = Inr ((), inval_var pk vk s)"
    using Cons.prems by (simp add: createPackage_step_eval)
  moreover have "createPackage_loop pk ks (inval_var pk vk s)
                   = Inr ((), fold (inval_var pk) ks (inval_var pk vk s))"
    using Cons.prems by (intro Cons.IH) (auto simp: frames_inval_var vstates_inval_var)
  ultimately show ?case by simp
qed

section \<open>Creating a package\<close>

lemma tab_keys_find_package:
  "find_package s k = Some pack \<Longrightarrow> tab_keys s k tr = map_option (map fst) (pack_htab pack tr)"
  by (simp add: tab_keys_def)

lemma ensure_present [simp]:
  "pack_present s k \<Longrightarrow> ensurePackagesHashExists s = s"
  by (auto simp: ensurePackagesHashExists_def pack_present_def find_package_def
      split: option.splits)

lemma find_package_ensure [simp]:
  "find_package (ensurePackagesHashExists s) = find_package s"
  by (auto simp: ensurePackagesHashExists_def find_package_def fun_eq_iff split: option.splits)

lemma createPackage_unfold:
  "createPackage nm is_trans s =
     (case getKeyFromName nm of
        Inl e \<Rightarrow> Inl (e, s)
      | Inr key \<Rightarrow>
          bnd (if pack_present s key then createPackage_found key s
               else Inr ((), new_package key s))
            (\<lambda>_. createPackage_finish key is_trans))"
proof (cases "getKeyFromName nm")
  case (Inl e)
  then show ?thesis by (simp add: createPackage_def)
next
  case (Inr key)
  have finish: "bnd (case find_package s5 key of
                      None \<Rightarrow> Inl (Fault, s5)
                    | Some pack \<Rightarrow>
                        Inr ((), if pack_htab pack is_trans = None
                                 then makePackHTAB key is_trans s5 else s5))
                 (\<lambda>_ s6.
                    bnd (isObjectChangedInCurrentTrans (PackObj key) s6) (\<lambda>changed s7.
                    bnd (if \<not> changed then addToChangesStack (PackObj key) s7
                         else Inr ((), s7)) (\<lambda>_ s8.
                    Inr (key, s8))))
        = createPackage_finish key is_trans s5" for s5
    by (cases "find_package s5 key")
       (auto simp: createPackage_finish_def pack_present_def tab_keys_find_package tab_keys_def)
  show ?thesis
  proof (cases "find_package s key")
    case None
    then show ?thesis
      using Inr by (simp add: createPackage_def finish new_package_def pack_present_def)
  next
    case (Some pack)
    then have pres: "pack_present s key" by (simp add: pack_present_def)
    have "tab_keys s key True = map_option (map fst) (varHashTransact pack)"
      using Some by (simp add: tab_keys_find_package pack_htab_def)
    then show ?thesis
      using Inr Some pres
      by (cases "varHashTransact pack")
         (simp_all add: createPackage_def finish createPackage_found_def cong: if_cong)
  qed
qed

lemma createPackage_found_fault:
  "pstates s key = [] \<Longrightarrow> createPackage_found key s = Inl (Fault, s)"
  by (simp add: createPackage_found_def isObjectChangedInCurrentTrans_eval createSavepoint_eval)

lemma createPackage_found_eval:
  assumes "pstates s key \<noteq> []"
  shows "createPackage_found key s =
     (let s2 = (if obj_changed s (PackObj key) then s else savepoint (PackObj key) s)
      in if is_valid (hd (pstates s key)) then Inr ((), s2)
         else case tab_keys s key True of
                None \<Rightarrow> Inr ((), set_head_valid (PackObj key) True s2)
              | Some ks \<Rightarrow> createPackage_loop key ks (set_head_valid (PackObj key) True s2))"
  using assms
  by (auto simp: createPackage_found_def isObjectChangedInCurrentTrans_eval createSavepoint_eval
      GetActualState_eval Let_def obj_changed_simps simp del: not_None_eq)

lemma new_package_fields [simp]:
  "nestLevel (new_package key s) = nestLevel s"
  "changesStack (new_package key s) = changesStack s"
  "frames (new_package key s) = frames s"
  by (simp_all add: new_package_def initObjectHistory_map hash_enter_package_def
      ensurePackagesHashExists_def frames_def split: option.splits)

lemma find_package_new_package:
  "find_package (new_package key s) k =
     (if k = key then Some \<lparr>name = key, states = [\<lparr>is_valid = True, level = 0, trans_var_num = 0\<rparr>],
                             varHashRegular = None, varHashTransact = None\<rparr>
      else find_package s k)"
  by (auto simp: new_package_def initObjectHistory_def map_package_def hash_enter_package_def
      ensurePackagesHashExists_def find_package_def map_of_map_entry update_conv'
      split: option.splits)

lemma new_package_obs [simp]:
  "pack_present (new_package key s) k \<longleftrightarrow> k = key \<or> pack_present s k"
  "pstates (new_package key s) k =
     (if k = key then [\<lparr>is_valid = True, level = 0, trans_var_num = 0\<rparr>] else pstates s k)"
  "tab_keys (new_package key s) k tr = (if k = key then None else tab_keys s k tr)"
  "find_variable (new_package key s) (pk, tr, vk) =
     (if pk = key then None else find_variable s (pk, tr, vk))"
  "vstates (new_package key s) (pk, tr, vk) = (if pk = key then [] else vstates s (pk, tr, vk))"
  "vkind (new_package key s) (pk, tr, vk) = (if pk = key then None else vkind s (pk, tr, vk))"
  "vrec (new_package key s) (pk, tr, vk) = (if pk = key then False else vrec s (pk, tr, vk))"
  by (simp_all add: pack_present_def pstates_def tab_keys_def find_variable_def vstates_def
      vkind_def vrec_def find_package_new_package pack_htab_def)

lemma makePackHTAB_obs2 [simp]:
  "vkind (makePackHTAB k tr s) (pk, tr', vk) =
     (if pk = k \<and> tr' = tr then None else vkind s (pk, tr', vk))"
  "vrec (makePackHTAB k tr s) (pk, tr', vk) =
     (if pk = k \<and> tr' = tr then False else vrec s (pk, tr', vk))"
  by (simp_all add: vkind_def vrec_def)

lemma createPackage_finish_eval:
  assumes "0 < nestLevel s" and "pstates s key \<noteq> []"
  shows "createPackage_finish key tr s =
     (let s6 = (if tab_keys s key tr = None then makePackHTAB key tr s else s)
      in if obj_changed s (PackObj key) then Inr (key, s6)
         else if level (hd (pstates s key)) = nestLevel s then Inr (key, prep s6)
         else if frames s = [] then Inl (Fault, prep s6)
         else Inr (key, set_head_level (PackObj key) (nestLevel s) (push_frame (PackObj key) s6)))"
  using assms pstates_present [of s key]
  by (auto simp: createPackage_finish_def isObjectChangedInCurrentTrans_eval
      addToChangesStack_eval Let_def obj_changed_simps simp del: not_None_eq)

lemma fold_inval_obs [simp]:
  "nestLevel (fold (inval_var pk) ks s) = nestLevel s"
  "pack_present (fold (inval_var pk) ks s) = pack_present s"
  "tab_keys (fold (inval_var pk) ks s) = tab_keys s"
  "vkind (fold (inval_var pk) ks s) = vkind s"
  "vrec (fold (inval_var pk) ks s) = vrec s"
  "pstates (fold (inval_var pk) ks s) = pstates s"
  by (induction ks arbitrary: s; simp)+

lemma changesStack_fold_inval:
  "changesStack s \<noteq> None \<Longrightarrow> changesStack (fold (inval_var pk) ks s) \<noteq> None"
  by (induction ks arbitrary: s) (simp_all del: not_None_eq)

lemma createPackage_Inr:
  assumes run: "createPackage nm tr s = Inr (pk, s')" and lvl: "0 < nestLevel s"
  shows "getKeyFromName nm = Inr pk" and "s' = createPackage_effect pk tr s"
    and "pack_present s pk \<Longrightarrow> pstates s pk \<noteq> []"
proof -
  from run obtain key s5 where key: "getKeyFromName nm = Inr key"
    and first: "(if pack_present s key then createPackage_found key s
                 else Inr ((), new_package key s)) = Inr ((), s5)"
    and fin: "createPackage_finish key tr s5 = Inr (pk, s')"
    by (auto simp: createPackage_unfold bnd_eq_Inr split: sum.splits)
  from fin have pk: "pk = key"
    by (auto simp: createPackage_finish_def bnd_eq_Inr split: if_splits)
  show "getKeyFromName nm = Inr pk" using key pk by simp
  show ne: "pstates s pk \<noteq> []" if "pack_present s pk"
    using first that pk createPackage_found_fault [of s key] by auto
  show "s' = createPackage_effect pk tr s"
  proof (cases "pack_present s key")
    case False
    then have s5: "s5 = new_package key s" using first by simp
    have nch: "\<not> obj_changed s (PackObj key)"
      using False by (simp add: obj_changed_simps pstates_absent)
    have "\<not> obj_changed (new_package key s) (PackObj key)"
      using lvl by (simp add: obj_changed_simps)
    then show ?thesis
      using fin lvl False nch unfolding s5 pk
      by (simp add: createPackage_finish_eval createPackage_effect_def Let_def
          split: if_splits)
  next
    case True
    then have st: "pstates s key \<noteq> []" using ne pk by simp
    define s2 where "s2 = (if obj_changed s (PackObj key) then s else savepoint (PackObj key) s)"
    define S5 where "S5 = (if is_valid (hd (pstates s key)) then s2
                      else fold (inval_var key)
                             (case tab_keys s key True of Some ks \<Rightarrow> ks | None \<Rightarrow> [])
                             (set_head_valid (PackObj key) True s2))"
    have lvl2: "0 < nestLevel (set_head_valid (PackObj key) True s2)"
      using lvl by (simp add: s2_def)
    have s5: "s5 = S5"
      using first True st createPackage_loop_Inr [OF lvl2]
      by (auto simp: createPackage_found_eval S5_def s2_def [symmetric] Let_def
          split: if_splits option.splits)
    have p5: "pstates S5 key \<noteq> []" and n5: "nestLevel S5 = nestLevel s"
      using st by (auto simp: S5_def s2_def)
    show ?thesis
    proof (cases "obj_changed s (PackObj key)")
      case ch: True
      then have "obj_changed S5 (PackObj key)"
        using changesStack_fold_inval [of "set_head_valid (PackObj key) True s" key]
        by (auto simp: S5_def s2_def obj_changed_simps simp del: not_None_eq)
      then show ?thesis
        using fin lvl p5 n5 ch True unfolding s5 pk
        by (auto simp: createPackage_finish_eval createPackage_effect_def Let_def
            S5_def s2_def simp del: not_None_eq split: if_splits)
    next
      case nch: False
      then have "level (hd (pstates S5 key)) = 0"
        using st by (auto simp: S5_def s2_def)
      then have "\<not> obj_changed S5 (PackObj key)" "level (hd (pstates S5 key)) \<noteq> nestLevel s"
        using lvl n5 by (auto simp: obj_changed_simps)
      then show ?thesis
        using fin lvl p5 n5 nch True unfolding s5 pk
        by (auto simp: createPackage_finish_eval createPackage_effect_def Let_def
            S5_def s2_def simp del: not_None_eq split: if_splits)
    qed
  qed
qed

section \<open>Creating a variable\<close>

lemma tab_keys_None_find_variable:
  "tab_keys s pk tr = None \<Longrightarrow> find_variable s (pk, tr, vk) = None"
  by (auto simp: tab_keys_def find_variable_def split: option.splits)

lemma new_variable_fields [simp]:
  "nestLevel (new_variable vp typ r s) = nestLevel s"
  "changesStack (new_variable vp typ r s) = changesStack s"
  "frames (new_variable vp typ r s) = frames s"
  "pstates (new_variable vp typ r s) = pstates s"
  "pack_present (new_variable vp typ r s) = pack_present s"
  by (simp_all add: new_variable_def initObjectHistory_map)

lemma new_variable_obs:
  assumes "tab_keys s pk tr \<noteq> None"
  shows "find_variable (new_variable (pk, tr, vk) typ r s) vp' =
           (if vp' = (pk, tr, vk)
            then Some \<lparr>name = vk, states = [init_state r], package = pk, typid = typ,
                       is_record = r, is_transactional = tr, is_deleted = False\<rparr>
            else find_variable s vp')"
    and "vstates (new_variable (pk, tr, vk) typ r s) vp' =
           (if vp' = (pk, tr, vk) then [init_state r] else vstates s vp')"
    and "vkind (new_variable (pk, tr, vk) typ r s) vp' =
           (if vp' = (pk, tr, vk) then Some (typ, r) else vkind s vp')"
    and "vrec (new_variable (pk, tr, vk) typ r s) vp' =
           (if vp' = (pk, tr, vk) then r else vrec s vp')"
    and "tab_keys (new_variable (pk, tr, vk) typ r s) k' tr' =
           (if k' = pk \<and> tr' = tr
            then map_option (\<lambda>ks. if vk \<in> set ks then ks else ks @ [vk]) (tab_keys s pk tr)
            else tab_keys s k' tr')"
  using assms
  by (auto simp: new_variable_def initObjectHistory_map init_state_def vkind_def vrec_def
      vstates_def simp del: not_None_eq)

lemma createVariableInternal_unfold:
  "createVariableInternal pk nm typ is_rec is_trans s =
     (case getKeyFromName nm of
        Inl e \<Rightarrow> Inl (e, s)
      | Inr key \<Rightarrow>
          if \<not> pack_present s pk then Inl (Fault, s)
          else if find_variable s (pk, \<not> is_trans, key) \<noteq> None
               then Inl (TransactionalityConflict, s)
          else if tab_keys s pk is_trans = None then Inl (Fault, s)
          else createVariableInternal_body pk key typ is_rec is_trans s)"
proof (cases "getKeyFromName nm")
  case (Inl e)
  then show ?thesis by (simp add: createVariableInternal_def)
next
  case (Inr key)
  show ?thesis
  proof (cases "find_package s pk")
    case None
    then show ?thesis using Inr by (simp add: createVariableInternal_def pack_present_def)
  next
    case (Some pack)
    show ?thesis
    proof (cases "pack_htab pack is_trans")
      case None
      then show ?thesis
        using Inr Some
        by (auto simp: createVariableInternal_def pack_present_def find_variable_def
            tab_keys_def split: option.splits)
    next
      case tab: (Some h)
      show ?thesis
        using Inr Some tab
        by (cases "pack_htab pack (\<not> is_trans)")
            (auto simp: createVariableInternal_def pack_present_def find_variable_def
              tab_keys_def createVariableInternal_body_def new_variable_def
             cong: if_cong option.case_cong)
    qed
  qed
qed

lemma upd_trans_var_num_eval:
  "upd_trans_var_num k f s =
     (if pstates s k = [] then Inl (Fault, s)
      else Inr ((), map_pstates k (map_head (\<lambda>st. st\<lparr>trans_var_num := f (trans_var_num st)\<rparr>)) s))"
  by (simp add: upd_trans_var_num_def GetActualState_eval map_pstates_def)

lemma body_found_regular:
  assumes "createVariableInternal_body pk key typ r False s = Inr (vp, s')"
    and "find_variable s (pk, False, key) = Some var"
  shows "vp = (pk, False, key)" and "typid var = typ" and "is_record var = r"
    and "vstates s (pk, False, key) \<noteq> []"
    and "s' = createVariableInternal_effect pk key typ r False s"
  using assms
  by (auto simp: createVariableInternal_body_def createVariableInternal_effect_def
      GetActualState_eval split: if_splits)

lemma body_found_trans:
  assumes "createVariableInternal_body pk key typ r True s = Inr (vp, s')"
    and "find_variable s (pk, True, key) = Some var" and "0 < nestLevel s"
  shows "vp = (pk, True, key)" and "typid var = typ" and "is_record var = r"
    and "vstates s (pk, True, key) \<noteq> []"
    and "s' = createVariableInternal_effect pk key typ r True s"
  using assms
  by (auto simp: createVariableInternal_body_def createVariableInternal_effect_def
      GetActualState_eval isObjectChangedInCurrentTrans_eval createSavepoint_eval
      upd_trans_var_num_eval addToChangesStack_eval obj_changed_simps bnd_eq_Inr
      simp del: not_None_eq split: if_splits)

lemma body_new:
  assumes "createVariableInternal_body pk key typ r tr s = Inr (vp, s')"
    and "find_variable s (pk, tr, key) = None" and "0 < nestLevel s"
    and "tab_keys s pk tr \<noteq> None"
  shows "vp = (pk, tr, key)"
    and "pstates s pk \<noteq> []"
    and "s' = createVariableInternal_effect pk key typ r tr s"
  using assms
  by (auto simp: createVariableInternal_body_def createVariableInternal_effect_def
      GetActualState_eval touch_block new_variable_obs pstates_touch frames_touch vstates_touch
      upd_trans_var_num_eval addToChangesStack_eval obj_changed_simps bnd_eq_Inr
      vstates_absent init_state_def zero_VarState_def
      simp del: not_None_eq split: if_splits)

lemma createVariableInternal_Inr:
  assumes run: "createVariableInternal pk nm typ r tr s = Inr (vp, s')" and lvl: "0 < nestLevel s"
  obtains key where "getKeyFromName nm = Inr key" and "vp = (pk, tr, key)"
    and "pack_present s pk" and "find_variable s (pk, \<not> tr, key) = None"
    and "tab_keys s pk tr \<noteq> None"
    and "s' = createVariableInternal_effect pk key typ r tr s"
    and "find_variable s vp = None \<or> (vkind s vp = Some (typ, r) \<and> vstates s vp \<noteq> [])"
    and "find_variable s vp = None \<longrightarrow> pstates s pk \<noteq> []"
proof -
  from run obtain key where key: "getKeyFromName nm = Inr key"
    and pres: "pack_present s pk" and other: "find_variable s (pk, \<not> tr, key) = None"
    and tab: "tab_keys s pk tr \<noteq> None"
    and body: "createVariableInternal_body pk key typ r tr s = Inr (vp, s')"
    by (auto simp: createVariableInternal_unfold simp del: not_None_eq
        split: sum.splits if_splits)
  show thesis
  proof (cases "find_variable s (pk, tr, key)")
    case None
    from body_new [OF body None lvl tab] show ?thesis
      using key pres other tab None by (intro that [of key]) auto
  next
    case (Some var)
    show ?thesis
    proof (cases tr)
      case True
      from body Some True
      have "createVariableInternal_body pk key typ r True s = Inr (vp, s')"
        and "find_variable s (pk, True, key) = Some var"
        by simp_all
      from body_found_trans [OF this lvl] show ?thesis
        using key pres other tab Some True
        by (intro that [of key]) (auto simp: vkind_def)
    next
      case False
      from body Some False
      have "createVariableInternal_body pk key typ r False s = Inr (vp, s')"
        and "find_variable s (pk, False, key) = Some var"
        by simp_all
      from body_found_regular [OF this] show ?thesis
        using key pres other tab Some False
        by (intro that [of key]) (auto simp: vkind_def)
    qed
  qed
qed

lemma effect_var_fields [simp]:
  "nestLevel (createVariableInternal_effect pk key typ r tr s) = nestLevel s"
  "pack_present (createVariableInternal_effect pk key typ r tr s) = pack_present s"
  by (simp_all add: createVariableInternal_effect_def Let_def)

lemma vkind_effect_var:
  assumes "tab_keys s pk tr \<noteq> None"
  shows "vkind (createVariableInternal_effect pk key typ r tr s) vp' =
     (if vp' = (pk, tr, key) \<and> find_variable s (pk, tr, key) = None then Some (typ, r)
      else vkind s vp')"
  using assms
  by (cases tr) (simp_all add: createVariableInternal_effect_def Let_def new_variable_obs
      del: not_None_eq)

lemma vstates_effect_var:
  assumes "tab_keys s pk tr \<noteq> None"
  shows "vstates (createVariableInternal_effect pk key typ r tr s) vp' =
     (if vp' = (pk, tr, key) then
        (if find_variable s vp' = None
         then [(init_state r)\<lparr>level := (if tr then nestLevel s else 0)\<rparr>]
         else if tr \<and> \<not> obj_changed s (VarObj vp')
         then push_copy (\<lambda>st. (sv_state (vrec s vp') st)\<lparr>is_valid := True, level := nestLevel s\<rparr>)
                (vstates s vp')
         else map_head (\<lambda>st. st\<lparr>is_valid := True\<rparr>) (vstates s vp'))
      else vstates s vp')"
  using assms
  by (cases tr)
     (auto simp: createVariableInternal_effect_def Let_def new_variable_obs vstates_touch
      map_head_push_copy init_state_def zero_VarState_def simp del: not_None_eq)

lemma pstates_effect_var:
  "pstates (createVariableInternal_effect pk key typ r tr s) k =
     (if k = pk then
        (if tr \<and> (find_variable s (pk, tr, key) = None \<or> \<not> is_valid (hd (vstates s (pk, tr, key))))
         then map_head (\<lambda>st. st\<lparr>trans_var_num := trans_var_num st + 1\<rparr>) else id)
          (if find_variable s (pk, tr, key) = None then pstates (touch (PackObj pk) s) pk
           else pstates s pk)
      else pstates s k)"
  by (auto simp: createVariableInternal_effect_def Let_def pstates_touch obj_changed_simps
      pstates_map_pstates_strict pstates_absent simp del: not_None_eq pstates_map_pstates)


section \<open>The store after \<open>createPackage\<close>\<close>

lemma effect_pack_fields [simp]:
  "nestLevel (createPackage_effect key tr s) = nestLevel s"
  "pack_present (createPackage_effect key tr s) k \<longleftrightarrow> k = key \<or> pack_present s k"
  by (auto simp: createPackage_effect_def Let_def)

lemma valid_update_same:
  "xs \<noteq> [] \<Longrightarrow> is_valid (hd xs) \<Longrightarrow>
   map_head (\<lambda>st. st\<lparr>is_valid := True\<rparr>) xs = (xs :: 'a TransState_scheme list)"
  by (cases xs) simp_all

lemma pstates_effect_pack:
  "pstates (createPackage_effect key tr s) k =
     (if k = key then
        (if pack_present s key then
           (if obj_changed s (PackObj key)
            then map_head (\<lambda>st. st\<lparr>is_valid := True\<rparr>) (pstates s key)
            else push_copy (\<lambda>st. st\<lparr>is_valid := True, level := nestLevel s\<rparr>) (pstates s key))
         else [\<lparr>is_valid = True, level = nestLevel s, trans_var_num = 0\<rparr>])
      else pstates s k)"
proof -
  have a: "is_valid (hd xs) \<Longrightarrow>
        push_copy (\<lambda>st. st\<lparr>level := l\<rparr>) xs = push_copy (\<lambda>st. st\<lparr>is_valid := True, level := l\<rparr>) xs"
    for xs :: "PackState list" and l
    by (cases xs) simp_all
  have b: "is_valid (hd xs) \<Longrightarrow> map_head (\<lambda>st. st\<lparr>is_valid := True\<rparr>) xs = xs"
    for xs :: "PackState list"
    by (cases xs) simp_all
  show ?thesis
    by (auto simp: createPackage_effect_def Let_def map_head_push_copy a b obj_changed_simps
        pstates_absent simp del: not_None_eq)
qed

lemma absent_tab_keys: "\<not> pack_present s k \<Longrightarrow> tab_keys s k t = None"
  by (simp add: pack_present_def tab_keys_def)

lemma tab_keys_effect_pack:
  "tab_keys (createPackage_effect key tr s) k t =
     (if k = key \<and> t = tr \<and> tab_keys s key tr = None then Some [] else tab_keys s k t)"
  by (auto simp: createPackage_effect_def Let_def absent_tab_keys
      simp del: not_None_eq)

lemma absent_find_variable:
  "\<not> pack_present s pk \<Longrightarrow> find_variable s (pk, tr, vk) = None"
  by (simp add: pack_present_def find_variable_def)

lemma vkind_effect_pack: "vkind (createPackage_effect key tr s) vp = vkind s vp"
proof -
  have "vkind s vp = None" if "\<not> pack_present s (fst vp) \<or> tab_keys s (fst vp) (fst (snd vp)) = None"
    using that by (cases vp) (auto simp: absent_find_variable tab_keys_None_find_variable)
  then show ?thesis
    by (cases vp) (auto simp: createPackage_effect_def Let_def simp del: not_None_eq vkind_None_iff)
qed

section \<open>Set, then get (C3)\<close>

lemma lookup_variable_obs:
  "find_package s pk = Some pack \<Longrightarrow>
   lookup_variable pk pack key =
     (case find_variable s (pk, False, key) of
        Some var \<Rightarrow> Some ((pk, False, key), var)
      | None \<Rightarrow> map_option (\<lambda>var. ((pk, True, key), var)) (find_variable s (pk, True, key)))"
  by (auto simp: lookup_variable_def find_variable_def pack_htab_def split: option.splits)

lemma vstates_set_scalar [simp]:
  "vstates (set_scalar vp sc s) vp' =
     (if vp' = vp then map_head (\<lambda>st. st\<lparr>scalar := sc\<rparr>) (vstates s vp) else vstates s vp')"
  by (cases "find_variable s vp") (auto simp: set_scalar_map vstates_absent vstates_def)

lemma set_scalar_obs [simp]:
  "nestLevel (set_scalar vp sc s) = nestLevel s"
  "changesStack (set_scalar vp sc s) = changesStack s"
  "frames (set_scalar vp sc s) = frames s"
  "pstates (set_scalar vp sc s) = pstates s"
  "pack_present (set_scalar vp sc s) = pack_present s"
  "tab_keys (set_scalar vp sc s) = tab_keys s"
  "vkind (set_scalar vp sc s) = vkind s"
  "vrec (set_scalar vp sc s) = vrec s"
  by (simp_all add: set_scalar_map)

lemma variable_get_eval:
  assumes "getKeyFromName p = Inr pk" and "getKeyFromName v = Inr key"
    and "pstates s pk \<noteq> []" and "is_valid (hd (pstates s pk))"
    and "tr \<longrightarrow> find_variable s (pk, False, key) = None"
    and "vkind s (pk, tr, key) = Some (T, False)"
    and "vstates s (pk, tr, key) \<noteq> []" and "is_valid (hd (vstates s (pk, tr, key)))"
  shows "variable_get p v T strict s =
     Inr ((datum_value (scalar (hd (vstates s (pk, tr, key)))),
           is_null (scalar (hd (vstates s (pk, tr, key))))), s)"
proof -
  from assms(3) obtain pack where pack: "find_package s pk = Some pack"
    by (auto simp: pstates_def split: option.splits)
  from assms(6) obtain var where var: "find_variable s (pk, tr, key) = Some var"
    and kind: "typid var = T" "is_record var = False"
    by (auto simp: vkind_def)
  have lk: "lookup_variable pk pack key = Some ((pk, tr, key), var)"
    using var assms(5) by (cases tr) (simp_all add: lookup_variable_obs [OF pack])
  have "getPackage p strict s = Inr (Some pk, s)"
    using assms(1,3,4) pack by (simp add: getPackage_def GetActualState_eval)
  moreover have "getVariableInternal pk v T False strict s = Inr (Some (pk, tr, key), s)"
    using assms(2,7,8) pack lk kind
    by (simp add: getVariableInternal_def GetActualState_eval)
  moreover have "GetActualValue_scalar (pk, tr, key) s
                   = Inr (scalar (hd (vstates s (pk, tr, key))), s)"
    using assms(7) by (simp add: GetActualValue_scalar_Inr')
  ultimately show ?thesis
    by (simp add: variable_get_def)
qed

lemma set_then_get:
  assumes set: "variable_set p v T x False tr s = Inr ((), s')" and lvl: "0 < nestLevel s"
  shows "variable_get p v T strict s' = Inr ((x, False), s')"
proof -
  from set obtain pk s1 vp s2 sc where
    cp: "createPackage p tr s = Inr (pk, s1)"
    and cv: "createVariableInternal pk v T False tr s1 = Inr (vp, s2)"
    and gv: "GetActualValue_scalar vp s2 = Inr (sc, s2)"
    and s': "s' = set_scalar vp (sc\<lparr>is_null := False, datum_value := datumCopy x\<rparr>) s2"
    by (auto simp: variable_set_def bnd_eq_Inr GetActualValue_scalar_Inr')
  note p = createPackage_Inr [OF cp lvl]
  have lvl1: "0 < nestLevel s1" using lvl p(2) by simp
  have ps1: "pstates s1 pk \<noteq> []" "is_valid (hd (pstates s1 pk))"
    using p(3) unfolding p(2) by (auto simp: pstates_effect_pack obj_changed_simps)
  from cv lvl1 obtain key where key: "getKeyFromName v = Inr key" and vp: "vp = (pk, tr, key)"
    and other: "find_variable s1 (pk, \<not> tr, key) = None"
    and tab: "tab_keys s1 pk tr \<noteq> None"
    and s2: "s2 = createVariableInternal_effect pk key T False tr s1"
    and old: "find_variable s1 vp = None \<or> (vkind s1 vp = Some (T, False) \<and> vstates s1 vp \<noteq> [])"
    by (rule createVariableInternal_Inr)
  have ps2: "pstates s2 pk \<noteq> [] \<and> is_valid (hd (pstates s2 pk))"
    using ps1 unfolding s2 by (auto simp: pstates_effect_var pstates_touch)
  have k2: "vkind s2 vp = Some (T, False)"
    using old tab unfolding s2 vp by (auto simp: vkind_effect_var simp del: not_None_eq)
  have v2: "vstates s2 vp \<noteq> [] \<and> is_valid (hd (vstates s2 vp))"
    using old tab unfolding s2 vp
    by (auto simp: vstates_effect_var init_state_def simp del: not_None_eq)
  have o2: "tr \<longrightarrow> find_variable s2 (pk, False, key) = None"
  proof
    assume tr
    have "vkind s1 (pk, False, key) = None" using other \<open>tr\<close> by simp
    then have "vkind s2 (pk, False, key) = None"
      using tab \<open>tr\<close> unfolding s2 by (simp add: vkind_effect_var del: vkind_None_iff not_None_eq)
    then show "find_variable s2 (pk, False, key) = None" by simp
  qed
  have "variable_get p v T strict s' =
     Inr ((datum_value (scalar (hd (vstates s' (pk, tr, key)))),
           is_null (scalar (hd (vstates s' (pk, tr, key))))), s')"
    using p(1) key ps2 k2 v2 o2 unfolding s' vp
    by (intro variable_get_eval) (auto simp flip: vkind_None_iff)
  then show ?thesis
    using v2 unfolding s' vp by (simp add: datumCopy_def)
qed

lemma set_fresh_returns:
  assumes "length p \<le> 62" and "length v \<le> 62"
  shows "\<exists>s1. variable_set p v T x False tr fresh_session = Inr ((), s1)"
  using assms
  by (cases tr)
     (simp_all add: fresh_session_def run_defs getKeyFromName_accepts
        numeral_2_eq_2 eval_nat_numeral)

text \<open>
  C3. When \<open>variable_set\<close> of a non-null value \<open>x\<close> of type \<open>T\<close> has returned, a
  \<open>variable_get\<close> of the same package, name and type in the store it left returns \<open>x\<close> with
  the null flag false, strict or not, and leaves the store as it is. This holds for either
  transactionality and for every store at a nesting level of at least one; and in a fresh session
  the call does return for all names within the bound.
\<close>

theorem C3_set_get:
  "(variable_set p v T x False tr s = Inr ((), s') \<and> 0 < nestLevel s \<longrightarrow>
      variable_get p v T strict s' = Inr ((x, False), s')) \<and>
   (length p \<le> 62 \<and> length v \<le> 62 \<longrightarrow>
      (\<exists>s1. variable_set p v T x False tr fresh_session = Inr ((), s1)))"
  using set_then_get [of p v T x tr s s' strict] set_fresh_returns [of p v T x tr]
  by blast

theorem C3_set_get_witness:
  "variable_get ''p'' ''x'' 23 True ex_tx = Inr ((1, False), ex_tx) \<and>
   (\<exists>s1. variable_set ''p'' ''x'' 23 1 False True fresh_session = Inr ((), s1))"
proof -
  have "variable_set ''p'' ''x'' 23 1 False True fresh_session = Inr ((), ex_tx)"
    by code_simp
  moreover have "0 < nestLevel fresh_session" "length ''p'' \<le> 62" "length ''x'' \<le> 62"
    by (simp_all add: fresh_session_def)
  ultimately show ?thesis
    using C3_set_get [of "''p''" "''x''" 23 1 True fresh_session ex_tx True]
    by simp
qed

section \<open>The loop that invalidates the variables of a package\<close>

lemma obj_changed_inval_var:
  "obj_changed s (VarObj vp) \<Longrightarrow> obj_changed (inval_var pk vk s) (VarObj vp)"
  by (auto simp: obj_changed_simps vstates_inval_var simp del: not_None_eq)

lemma obj_changed_inval_var_own:
  "vstates s (pk, True, vk) \<noteq> [] \<Longrightarrow> 
   obj_changed (inval_var pk vk s) (VarObj (pk, True, vk))"
  by (auto simp: obj_changed_simps vstates_inval_var simp del: not_None_eq)

lemma invalid_inval_var_own:
  "vstates s (pk, True, vk) \<noteq> [] \<Longrightarrow> 
   \<not> is_valid (hd (vstates (inval_var pk vk s) (pk, True, vk)))"
  by (auto simp: vstates_inval_var)

lemma vstates_fold_inval_other:
  "\<forall>vk \<in> set ks. vp \<noteq> (pk, True, vk) \<Longrightarrow>
   vstates (fold (inval_var pk) ks s) vp = vstates s vp"
  by (induction ks arbitrary: s) (simp_all add: vstates_inval_var)

lemma vstates_fold_inval_forms:
  "vstates (fold (inval_var pk) ks s) vp = vstates s vp \<or>
   obj_changed (fold (inval_var pk) ks s) (VarObj vp) \<and>
   (vstates (fold (inval_var pk) ks s) vp
      = map_head (\<lambda>st. st\<lparr>is_valid := False\<rparr>) (vstates s vp) \<or>
    vstates (fold (inval_var pk) ks s) vp
      = push_copy (\<lambda>st. (sv_state (vrec s vp) st)\<lparr>level := nestLevel s, is_valid := False\<rparr>)
          (vstates s vp))"
proof (induction ks rule: rev_induct)
  case Nil
  then show ?case by simp
next
  case (snoc k ks)
  let ?m = "fold (inval_var pk) ks s"
  have inv_idem: "map_head (\<lambda>st. st\<lparr>is_valid := False\<rparr>) (map_head (\<lambda>st. st\<lparr>is_valid := False\<rparr>) xs)
      = map_head (\<lambda>st. st\<lparr>is_valid := False\<rparr>) xs" for xs :: "VarState list"
    by (cases xs) simp_all
  have inv_push: "map_head (\<lambda>st. st\<lparr>is_valid := False\<rparr>) (push_copy (\<lambda>st. (f st)\<lparr>is_valid := False\<rparr>) xs)
      = push_copy (\<lambda>st. (f st)\<lparr>is_valid := False\<rparr>) xs" for xs :: "VarState list" and f
    by (cases xs) simp_all
  show ?case
  proof (cases "vp = (pk, True, k)")
    case False
    with snoc show ?thesis
      by (auto simp: vstates_inval_var obj_changed_inval_var)
  next
    case True
    from snoc consider (same) "vstates ?m vp = vstates s vp"
      | (touched) "obj_changed ?m (VarObj vp)"
          "vstates ?m vp = map_head (\<lambda>st. st\<lparr>is_valid := False\<rparr>) (vstates s vp) \<or>
           vstates ?m vp = push_copy (\<lambda>st. (sv_state (vrec s vp) st)\<lparr>level := nestLevel s, is_valid := False\<rparr>)
              (vstates s vp)"
      by blast
    then show ?thesis
    proof cases
      case same
      show ?thesis
      proof (cases "vstates s vp = []")
        case True
        then show ?thesis using same \<open>vp = (pk, True, k)\<close>
          by (simp add: vstates_inval_var)
      next
        case False
        then have "obj_changed (inval_var pk k ?m) (VarObj vp)"
          using same \<open>vp = (pk, True, k)\<close> by (simp add: obj_changed_inval_var_own)
        then show ?thesis
          using same \<open>vp = (pk, True, k)\<close> by (simp add: vstates_inval_var)
      qed
    next
      case touched
      then show ?thesis
        using \<open>vp = (pk, True, k)\<close> obj_changed_inval_var [of ?m vp pk k]
        by (auto simp: vstates_inval_var inv_idem inv_push)
    qed
  qed
qed

lemma vstates_fold_inval_exact:
  assumes "changesStack s \<noteq> None"
  shows "vstates (fold (inval_var pk) ks s) vp =
     (if vp \<in> (\<lambda>vk. (pk, True, vk)) ` set ks
      then (if obj_changed s (VarObj vp)
            then map_head (\<lambda>st. st\<lparr>is_valid := False\<rparr>) (vstates s vp)
            else push_copy (\<lambda>st. (sv_state (vrec s vp) st)\<lparr>level := nestLevel s, is_valid := False\<rparr>)
                   (vstates s vp))
      else vstates s vp)"
proof (induction ks rule: rev_induct)
  case Nil
  then show ?case by simp
next
  case (snoc k ks)
  let ?m = "fold (inval_var pk) ks s"
  have cs: "changesStack ?m \<noteq> None"
    using assms by (rule changesStack_fold_inval)
  have inv_idem: "map_head (\<lambda>st. st\<lparr>is_valid := False\<rparr>) (map_head (\<lambda>st. st\<lparr>is_valid := False\<rparr>) xs)
      = map_head (\<lambda>st. st\<lparr>is_valid := False\<rparr>) xs" for xs :: "VarState list"
    by (cases xs) simp_all
  have inv_push: "map_head (\<lambda>st. st\<lparr>is_valid := False\<rparr>) (push_copy (\<lambda>st. (f st)\<lparr>is_valid := False\<rparr>) xs)
      = push_copy (\<lambda>st. (f st)\<lparr>is_valid := False\<rparr>) xs" for xs :: "VarState list" and f
    by (cases xs) simp_all
  show ?case
  proof (cases "vp = (pk, True, k)")
    case False
    with snoc show ?thesis by (auto simp: vstates_inval_var)
  next
    case True
    show ?thesis
      using snoc True cs assms
      by (cases "vstates s vp")
         (auto simp: vstates_inval_var obj_changed_simps inv_idem inv_push
          simp del: not_None_eq)
  qed
qed

lemma changesStack_effect_pack [simp]:
  "changesStack (createPackage_effect key tr s) \<noteq> None"
  "\<exists>y. changesStack (createPackage_effect key tr s) = Some y"
  using changesStack_fold_inval [of "set_head_valid (PackObj key) True s" key]
  by (auto simp: createPackage_effect_def Let_def obj_changed_def simp del: not_None_eq)

lemma vstates_effect_pack_valid:
  assumes "pack_present s key \<longrightarrow> is_valid (hd (pstates s key))"
  shows "vstates (createPackage_effect key tr s) vp = vstates s vp"
proof -
  have "vstates s vp = []" if "\<not> pack_present s (fst vp) \<or> tab_keys s (fst vp) (fst (snd vp)) = None"
    using that
    by (cases vp) (auto simp: absent_find_variable tab_keys_None_find_variable vstates_absent)
  then show ?thesis
    using assms
    by (cases vp) (auto simp: createPackage_effect_def Let_def simp del: not_None_eq)
qed

lemma vstates_effect_pack_invalid:
  assumes "pack_present s key" and "\<not> is_valid (hd (pstates s key))"
  shows "vstates (createPackage_effect key tr s) vp =
         vstates (fold (inval_var key) (case tab_keys s key True of Some ks \<Rightarrow> ks | None \<Rightarrow> [])
                    (set_head_valid (PackObj key) True
                       (if obj_changed s (PackObj key) then s else savepoint (PackObj key) s))) vp"
proof -
  have "vstates s' vp = []" if "tab_keys s' (fst vp) (fst (snd vp)) = None" for s'
    using that
    by (cases vp) (auto simp: tab_keys_None_find_variable vstates_absent)
  then show ?thesis
    using assms
    by (cases vp) (auto simp: createPackage_effect_def Let_def simp del: not_None_eq)
qed

lemma vstates_effect_pack_forms:
  "vstates (createPackage_effect key tr s) vp = vstates s vp \<or>
   obj_changed (createPackage_effect key tr s) (VarObj vp) \<and>
   (vstates (createPackage_effect key tr s) vp
      = map_head (\<lambda>st. st\<lparr>is_valid := False\<rparr>) (vstates s vp) \<or>
    vstates (createPackage_effect key tr s) vp
      = push_copy (\<lambda>st. (sv_state (vrec s vp) st)\<lparr>level := nestLevel s, is_valid := False\<rparr>)
          (vstates s vp))"
proof (cases "pack_present s key \<and> \<not> is_valid (hd (pstates s key))")
  case False
  then show ?thesis by (simp add: vstates_effect_pack_valid)
next
  case True
  define S where "S = set_head_valid (PackObj key) True
                       (if obj_changed s (PackObj key) then s else savepoint (PackObj key) s)"
  define ks where "ks = (case tab_keys s key True of Some ks \<Rightarrow> ks | None \<Rightarrow> [])"
  have eq: "vstates (createPackage_effect key tr s) vp = vstates (fold (inval_var key) ks S) vp"
    using True by (simp add: vstates_effect_pack_invalid S_def ks_def)
  have S: "vstates S vp = vstates s vp" "vrec S vp = vrec s vp" "nestLevel S = nestLevel s"
    by (simp_all add: S_def)
  have ch: "obj_changed (fold (inval_var key) ks S) (VarObj vp) \<Longrightarrow>
            obj_changed (createPackage_effect key tr s) (VarObj vp)"
    unfolding obj_changed_simps eq by (simp add: S)
  from vstates_fold_inval_forms [of key ks S vp] show ?thesis
    unfolding eq S using ch by blast
qed

section \<open>The frame of \<open>variable_set\<close> (C10)\<close>

lemma getKeyFromName_key_of: "getKeyFromName nm = Inr k \<Longrightarrow> k = key_of nm"
  by (auto simp: getKeyFromName_def key_of_def split: if_splits)

lemma set_frame:
  assumes set: "variable_set p v T x isnull True s = Inr ((), s')" and lvl: "0 < nestLevel s"
    and old: "vstates s (key_of p, True, key_of v) = st # rest"
  shows "vstates s' (key_of p, True, key_of v) = hd (vstates s' (key_of p, True, key_of v)) # rest \<or>
         vstates s' (key_of p, True, key_of v) = hd (vstates s' (key_of p, True, key_of v)) # st # rest"
    and "is_valid (hd (vstates s' (key_of p, True, key_of v)))"
    and "scalar (hd (vstates s' (key_of p, True, key_of v)))
           = \<lparr>datum_value = (if isnull then 0 else x), is_null = isnull\<rparr>"
    and "is_valid (hd (pstates s (key_of p))) \<Longrightarrow>
           vstates s' (key_of p, True, key_of v) =
             (if level st = nestLevel s
              then hd (vstates s' (key_of p, True, key_of v)) # rest
              else hd (vstates s' (key_of p, True, key_of v)) # st # rest)"
    and "is_valid (hd (pstates s (key_of p))) \<Longrightarrow> vp' \<noteq> (key_of p, True, key_of v) \<Longrightarrow>
           vstates s' vp' = vstates s vp'"
proof -
  from set obtain pk s1 vp s2 sc where
    cp: "createPackage p True s = Inr (pk, s1)"
    and cv: "createVariableInternal pk v T False True s1 = Inr (vp, s2)"
    and gv: "GetActualValue_scalar vp s2 = Inr (sc, s2)"
    and s': "s' = set_scalar vp
               (if \<not> isnull then sc\<lparr>is_null := isnull, datum_value := datumCopy x\<rparr>
                else sc\<lparr>is_null := isnull, datum_value := 0\<rparr>) s2"
    by (auto simp: variable_set_def bnd_eq_Inr GetActualValue_scalar_Inr')
  note p = createPackage_Inr [OF cp lvl]
  have pk: "pk = key_of p" using p(1) by (rule getKeyFromName_key_of)
  have lvl1: "0 < nestLevel s1" using lvl p(2) by simp
  from cv lvl1 obtain key where key: "getKeyFromName v = Inr key" and vp: "vp = (pk, True, key)"
    and tab: "tab_keys s1 pk True \<noteq> None"
    and s2: "s2 = createVariableInternal_effect pk key T False True s1"
    by (rule createVariableInternal_Inr)
  have k: "key = key_of v" using key by (rule getKeyFromName_key_of)
  let ?vp = "(key_of p, True, key_of v)"
  have found: "find_variable s ?vp \<noteq> None"
    using old by (auto simp: vstates_def split: option.splits)
  then have found1: "find_variable s1 ?vp \<noteq> None"
    using vkind_effect_pack [of pk True s ?vp] unfolding p(2) by (simp flip: vkind_None_iff)
  have v2: "vstates s2 ?vp =
      (if \<not> obj_changed s1 (VarObj ?vp)
       then push_copy (\<lambda>st. (sv_state (vrec s1 ?vp) st)\<lparr>is_valid := True, level := nestLevel s1\<rparr>)
              (vstates s1 ?vp)
       else map_head (\<lambda>st. st\<lparr>is_valid := True\<rparr>) (vstates s1 ?vp))"
    using tab found1 unfolding s2 pk k
    by (simp add: vstates_effect_var del: not_None_eq)
  have v': "vstates s' vp' = (if vp' = ?vp then map_head (\<lambda>st. st\<lparr>scalar :=
               (if \<not> isnull then sc\<lparr>is_null := isnull, datum_value := datumCopy x\<rparr>
                else sc\<lparr>is_null := isnull, datum_value := 0\<rparr>)\<rparr>) (vstates s2 ?vp)
             else vstates s1 vp')" for vp'
    using tab unfolding s' vp s2 pk k
    by (simp add: vstates_effect_var del: not_None_eq)
  from vstates_effect_pack_forms [of pk True s ?vp]
  show "vstates s' ?vp = hd (vstates s' ?vp) # rest \<or> vstates s' ?vp = hd (vstates s' ?vp) # st # rest"
    unfolding v' v2 p(2) [symmetric] old by (auto simp: obj_changed_simps)
  from vstates_effect_pack_forms [of pk True s ?vp]
  show "is_valid (hd (vstates s' ?vp))"
    unfolding v' v2 p(2) [symmetric] old by (auto simp: obj_changed_simps)
  from vstates_effect_pack_forms [of pk True s ?vp]
  show "scalar (hd (vstates s' ?vp)) = \<lparr>datum_value = (if isnull then 0 else x), is_null = isnull\<rparr>"
    unfolding v' v2 p(2) [symmetric] old by (auto simp: obj_changed_simps datumCopy_def)
  {
    assume valid: "is_valid (hd (pstates s (key_of p)))"
    have same: "vstates s1 vp' = vstates s vp'" for vp'
      using valid unfolding p(2) pk by (simp add: vstates_effect_pack_valid)
    have ch: "obj_changed s1 (VarObj ?vp) \<longleftrightarrow> level st = nestLevel s"
      using old unfolding obj_changed_simps same
      by (simp add: p(2) del: not_None_eq)
    show "vstates s' ?vp =
             (if level st = nestLevel s then hd (vstates s' ?vp) # rest
              else hd (vstates s' ?vp) # st # rest)"
      unfolding v' v2 ch same old by simp
    show "vstates s' vp' = vstates s vp'" if "vp' \<noteq> ?vp"
      using that unfolding v' same by simp
  }
qed

text \<open>
  The frame of \<open>variable_set\<close> is wider than the claim says when the package had been
  removed: in the store of the scenario above, where the package \<open>p\<close> is invalid and the variable
  \<open>v\<close> has two states, setting \<open>v\<close> makes the package valid again and thereby invalidates the
  actual state of the other variable \<open>u\<close>, which was valid before.
\<close>

theorem C10_counterexample:
  "case removed_scenario of
     Inr (u, s) \<Rightarrow>
       length (vstates s (''p'', True, ''v'')) = 2 \<and>
       is_valid (hd (vstates s (''p'', True, ''u''))) \<and>
       (case variable_set ''p'' ''v'' 23 3 False True s of
          Inr (u', s') \<Rightarrow>
            \<not> is_valid (hd (vstates s' (''p'', True, ''u''))) \<and>
            vstates s' (''p'', True, ''u'') \<noteq> vstates s (''p'', True, ''u'')
        | Inl e \<Rightarrow> False)
   | Inl e \<Rightarrow> False"
  by code_simp

section \<open>Creating a package that was removed (C5)\<close>

lemma vstates_fold_inval_Nil:
  "vstates (fold (inval_var pk) ks s) vp = [] \<longleftrightarrow> vstates s vp = []"
  using vstates_fold_inval_forms [of pk ks s vp] by (elim disjE conjE) simp_all

lemma fold_inval_target:
  "vk \<in> set ks \<Longrightarrow> vstates s (pk, True, vk) \<noteq> [] \<Longrightarrow>
   obj_changed (fold (inval_var pk) ks s) (VarObj (pk, True, vk)) \<and>
   \<not> is_valid (hd (vstates (fold (inval_var pk) ks s) (pk, True, vk)))"
proof (induction ks rule: rev_induct)
  case Nil
  then show ?case by simp
next
  case (snoc k ks)
  let ?m = "fold (inval_var pk) ks s"
  have ne: "vstates ?m (pk, True, vk) \<noteq> []"
    using snoc.prems(2) by (simp add: vstates_fold_inval_Nil)
  show ?case
  proof (cases "vk = k")
    case True
    with ne show ?thesis
      by (simp add: obj_changed_inval_var_own invalid_inval_var_own)
  next
    case False
    with snoc have "obj_changed ?m (VarObj (pk, True, vk))"
      and "\<not> is_valid (hd (vstates ?m (pk, True, vk)))"
      by auto
    with False show ?thesis
      by (simp add: obj_changed_inval_var vstates_inval_var)
  qed
qed

lemma frames_fold_inval_Nil:
  "frames s \<noteq> [] \<Longrightarrow> frames (fold (inval_var pk) ks s) \<noteq> []"
  by (induction ks arbitrary: s) (simp_all add: frames_inval_var)

lemma createPackage_returns:
  assumes key: "getKeyFromName nm = Inr key" and lvl: "0 < nestLevel s"
    and st: "pstates s key \<noteq> []" and fr: "frames s \<noteq> []"
    and vars: "\<forall>vk \<in> set (trans_keys s key). vstates s (key, True, vk) \<noteq> []"
  shows "createPackage nm tr s = Inr (key, createPackage_effect key tr s)"
proof -
  have pres: "pack_present s key" using st by (rule pstates_present)
  define s2 where "s2 = (if obj_changed s (PackObj key) then s else savepoint (PackObj key) s)"
  define S where "S = set_head_valid (PackObj key) True s2"
  define S5 where "S5 = (if is_valid (hd (pstates s key)) then s2
                      else fold (inval_var key) (trans_keys s key) S)"
  have loop: "createPackage_loop key (trans_keys s key) S
                = Inr ((), fold (inval_var key) (trans_keys s key) S)"
    using lvl fr vars by (intro createPackage_loop_eval) (auto simp: S_def s2_def)
  have found: "createPackage_found key s = Inr ((), S5)"
    using st loop
    by (auto simp: createPackage_found_eval Let_def S5_def S_def s2_def trans_keys_def
        split: option.splits)
  have p5: "pstates S5 key \<noteq> []" and n5: "nestLevel S5 = nestLevel s"
    and f5: "frames S5 \<noteq> []"
    using st fr by (auto simp: S5_def S_def s2_def frames_fold_inval_Nil)
  have "\<exists>r. createPackage_finish key tr S5 = Inr r"
    using lvl p5 n5 f5 by (auto simp: createPackage_finish_eval Let_def)
  then obtain pk s' where "createPackage nm tr s = Inr (pk, s')"
    using key pres found by (auto simp: createPackage_unfold)
  with createPackage_Inr [OF this lvl] key show ?thesis by simp
qed

lemma resurrect:
  assumes run: "createPackage nm tr s = Inr (pk, s')" and lvl: "0 < nestLevel s"
    and old: "pstates s (key_of nm) = pst # prest" and inv: "\<not> is_valid pst"
  shows "pk = key_of nm"
    and "pstates s' pk =
           (if changesStack s \<noteq> None \<and> level pst = nestLevel s
            then pst\<lparr>is_valid := True\<rparr> # prest
            else pst\<lparr>is_valid := True, level := nestLevel s\<rparr> # pst # prest)"
    and "vk \<in> set (trans_keys s pk) \<Longrightarrow> vstates s (pk, True, vk) \<noteq> [] \<Longrightarrow>
           \<not> is_valid (hd (vstates s' (pk, True, vk))) \<and>
           level (hd (vstates s' (pk, True, vk))) = nestLevel s \<and>
           (vstates s' (pk, True, vk)
              = map_head (\<lambda>st. st\<lparr>is_valid := False\<rparr>) (vstates s (pk, True, vk)) \<or>
            vstates s' (pk, True, vk)
              = push_copy (\<lambda>st. (sv_state (vrec s (pk, True, vk)) st)
                                  \<lparr>level := nestLevel s, is_valid := False\<rparr>)
                  (vstates s (pk, True, vk)))"
    and "changesStack s \<noteq> None \<Longrightarrow> vk \<in> set (trans_keys s pk) \<Longrightarrow>
           vstates s' (pk, True, vk) =
             (if vstates s (pk, True, vk) \<noteq> [] \<and>
                 level (hd (vstates s (pk, True, vk))) = nestLevel s
              then map_head (\<lambda>st. st\<lparr>is_valid := False\<rparr>) (vstates s (pk, True, vk))
              else push_copy (\<lambda>st. (sv_state (vrec s (pk, True, vk)) st)
                                  \<lparr>level := nestLevel s, is_valid := False\<rparr>)
                     (vstates s (pk, True, vk)))"
    and "vp \<notin> (\<lambda>vk. (pk, True, vk)) ` set (trans_keys s pk) \<Longrightarrow> vstates s' vp = vstates s vp"
proof -
  note p = createPackage_Inr [OF run lvl]
  show pk: "pk = key_of nm" using p(1) by (rule getKeyFromName_key_of)
  have pres: "pack_present s pk"
    using old unfolding pk by (intro pstates_present) simp
  have inv': "\<not> is_valid (hd (pstates s pk))" using old inv unfolding pk by simp
  show "pstates s' pk =
           (if changesStack s \<noteq> None \<and> level pst = nestLevel s
            then pst\<lparr>is_valid := True\<rparr> # prest
            else pst\<lparr>is_valid := True, level := nestLevel s\<rparr> # pst # prest)"
    using pres old unfolding p(2) pk
    by (simp add: pstates_effect_pack obj_changed_simps del: not_None_eq)
  define S where "S = set_head_valid (PackObj pk) True
                       (if obj_changed s (PackObj pk) then s else savepoint (PackObj pk) s)"
  have eq: "vstates s' vp = vstates (fold (inval_var pk) (trans_keys s pk) S) vp" for vp
    using pres inv' unfolding p(2)
    by (simp add: vstates_effect_pack_invalid S_def trans_keys_def)
  have S: "vstates S = vstates s" "vrec S = vrec s" "nestLevel S = nestLevel s"
    "changesStack S = changesStack s"
    by (auto simp: S_def fun_eq_iff)
  show "vstates s' vp = vstates s vp" if "vp \<notin> (\<lambda>vk. (pk, True, vk)) ` set (trans_keys s pk)"
    using that unfolding eq by (subst vstates_fold_inval_other) (auto simp: S)
  show "vstates s' (pk, True, vk) =
             (if vstates s (pk, True, vk) \<noteq> [] \<and>
                 level (hd (vstates s (pk, True, vk))) = nestLevel s
              then map_head (\<lambda>st. st\<lparr>is_valid := False\<rparr>) (vstates s (pk, True, vk))
              else push_copy (\<lambda>st. (sv_state (vrec s (pk, True, vk)) st)
                                  \<lparr>level := nestLevel s, is_valid := False\<rparr>)
                     (vstates s (pk, True, vk)))"
    if "changesStack s \<noteq> None" "vk \<in> set (trans_keys s pk)"
    using that unfolding eq
    by (subst vstates_fold_inval_exact) (auto simp: S obj_changed_simps simp del: not_None_eq)
  show "\<not> is_valid (hd (vstates s' (pk, True, vk))) \<and>
           level (hd (vstates s' (pk, True, vk))) = nestLevel s \<and>
           (vstates s' (pk, True, vk)
              = map_head (\<lambda>st. st\<lparr>is_valid := False\<rparr>) (vstates s (pk, True, vk)) \<or>
            vstates s' (pk, True, vk)
              = push_copy (\<lambda>st. (sv_state (vrec s (pk, True, vk)) st)
                                  \<lparr>level := nestLevel s, is_valid := False\<rparr>)
                  (vstates s (pk, True, vk)))"
    if "vk \<in> set (trans_keys s pk)" "vstates s (pk, True, vk) \<noteq> []"
  proof -
    let ?f = "fold (inval_var pk) (trans_keys s pk) S"
    let ?vp = "(pk, True, vk)"
    from fold_inval_target [of vk "trans_keys s pk" S pk] that
    have ch: "obj_changed ?f (VarObj ?vp)" and nv: "\<not> is_valid (hd (vstates ?f ?vp))"
      by (simp_all add: S)
    have same: "map_head (\<lambda>st. st\<lparr>is_valid := False\<rparr>) xs = xs"
      if "xs \<noteq> []" "\<not> is_valid (hd xs)" for xs :: "VarState list"
      using that by (cases xs) simp_all
    from vstates_fold_inval_forms [of pk "trans_keys s pk" S ?vp]
    have "vstates ?f ?vp = map_head (\<lambda>st. st\<lparr>is_valid := False\<rparr>) (vstates s ?vp) \<or>
          vstates ?f ?vp = push_copy (\<lambda>st. (sv_state (vrec s ?vp) st)
                                  \<lparr>level := nestLevel s, is_valid := False\<rparr>) (vstates s ?vp)"
      unfolding S using nv that(2) same [of "vstates s ?vp"] by auto
    then show ?thesis
      using ch nv unfolding eq by (auto simp: obj_changed_simps S)
  qed
qed

text \<open>
  No savepoint is made for an object that was already changed at the current level. A package
  removed in the transaction that created it has one state, invalid, of level 1; after
  \<open>createPackage\<close> at the same level it still has one state, now valid, and its variable still has
  one state, now invalid.
\<close>

theorem C5_counterexample:
  "case removed_same_level of
     Inr (u, s) \<Rightarrow>
       pstates s ''p'' = [\<lparr>is_valid = False, level = 1, trans_var_num = 0\<rparr>] \<and>
       length (vstates s (''p'', True, ''t'')) = 1 \<and>
       (case createPackage ''p'' True s of
          Inr (pk, s') \<Rightarrow>
            pstates s' ''p'' = [\<lparr>is_valid = True, level = 1, trans_var_num = 0\<rparr>] \<and>
            length (vstates s' (''p'', True, ''t'')) = 1 \<and>
            \<not> is_valid (hd (vstates s' (''p'', True, ''t'')))
        | Inl e \<Rightarrow> False)
   | Inl e \<Rightarrow> False"
  by code_simp

text \<open>
  C5 (amended). When \<open>createPackage\<close> has returned for a name whose package is in the store with
  an invalid actual state: the actual state of the package is valid; it is the old actual state
  made valid when that was of the current level (and a changes stack exists), and otherwise a
  copy of it at the current level on top of all old states. Every transactional variable of the
  package that has states ends with an invalid actual state of the current level, which is either
  its old actual state made invalid or a copy pushed on its old states, the former exactly when
  it was already of the current level (given that a changes stack exists). The states of all other
  variables are unchanged. The call returns whenever the name is within the bound, the package
  and its transactional variables have states and the changes stack has a frame.
\<close>

theorem C5_resurrect:
  "(createPackage nm tr s = Inr (pk, s') \<and> 0 < nestLevel s \<and>
    pstates s (key_of nm) = pst # prest \<and> \<not> is_valid pst \<longrightarrow>
      pk = key_of nm \<and>
      pstates s' pk =
        (if changesStack s \<noteq> None \<and> level pst = nestLevel s
         then pst\<lparr>is_valid := True\<rparr> # prest
         else pst\<lparr>is_valid := True, level := nestLevel s\<rparr> # pst # prest) \<and>
      (\<forall>vk \<in> set (trans_keys s pk). vstates s (pk, True, vk) \<noteq> [] \<longrightarrow>
         \<not> is_valid (hd (vstates s' (pk, True, vk))) \<and>
         level (hd (vstates s' (pk, True, vk))) = nestLevel s \<and>
         (vstates s' (pk, True, vk)
            = map_head (\<lambda>st. st\<lparr>is_valid := False\<rparr>) (vstates s (pk, True, vk)) \<or>
          vstates s' (pk, True, vk)
            = push_copy (\<lambda>st. (sv_state (vrec s (pk, True, vk)) st)
                                \<lparr>level := nestLevel s, is_valid := False\<rparr>)
                (vstates s (pk, True, vk)))) \<and>
      (changesStack s \<noteq> None \<longrightarrow>
         (\<forall>vk \<in> set (trans_keys s pk).
            vstates s' (pk, True, vk) =
              (if vstates s (pk, True, vk) \<noteq> [] \<and>
                  level (hd (vstates s (pk, True, vk))) = nestLevel s
               then map_head (\<lambda>st. st\<lparr>is_valid := False\<rparr>) (vstates s (pk, True, vk))
               else push_copy (\<lambda>st. (sv_state (vrec s (pk, True, vk)) st)
                                   \<lparr>level := nestLevel s, is_valid := False\<rparr>)
                      (vstates s (pk, True, vk))))) \<and>
      (\<forall>vp. vp \<notin> (\<lambda>vk. (pk, True, vk)) ` set (trans_keys s pk) \<longrightarrow>
         vstates s' vp = vstates s vp)) \<and>
   (getKeyFromName nm = Inr key \<and> 0 < nestLevel s \<and> pstates s key \<noteq> [] \<and>
    frames s \<noteq> [] \<and> (\<forall>vk \<in> set (trans_keys s key). vstates s (key, True, vk) \<noteq> []) \<longrightarrow>
      (\<exists>s1. createPackage nm tr s = Inr (key, s1)))"
proof (intro conjI impI)
  assume a: "getKeyFromName nm = Inr key \<and> 0 < nestLevel s \<and> pstates s key \<noteq> [] \<and>
    frames s \<noteq> [] \<and> (\<forall>vk \<in> set (trans_keys s key). vstates s (key, True, vk) \<noteq> [])"
  then show "\<exists>s1. createPackage nm tr s = Inr (key, s1)"
    using createPackage_returns [of nm key s tr] by blast
next
  assume a: "createPackage nm tr s = Inr (pk, s') \<and> 0 < nestLevel s \<and>
    pstates s (key_of nm) = pst # prest \<and> \<not> is_valid pst"
  then have run: "createPackage nm tr s = Inr (pk, s')" and lvl: "0 < nestLevel s"
    and old: "pstates s (key_of nm) = pst # prest" and inv: "\<not> is_valid pst"
    by simp_all
  note r = resurrect [OF run lvl old inv]
  show "pk = key_of nm" by (rule r(1))
  show "pstates s' pk =
        (if changesStack s \<noteq> None \<and> level pst = nestLevel s
         then pst\<lparr>is_valid := True\<rparr> # prest
         else pst\<lparr>is_valid := True, level := nestLevel s\<rparr> # pst # prest)"
    by (rule r(2))
  show "\<forall>vk \<in> set (trans_keys s pk). vstates s (pk, True, vk) \<noteq> [] \<longrightarrow>
         \<not> is_valid (hd (vstates s' (pk, True, vk))) \<and>
         level (hd (vstates s' (pk, True, vk))) = nestLevel s \<and>
         (vstates s' (pk, True, vk)
            = map_head (\<lambda>st. st\<lparr>is_valid := False\<rparr>) (vstates s (pk, True, vk)) \<or>
          vstates s' (pk, True, vk)
            = push_copy (\<lambda>st. (sv_state (vrec s (pk, True, vk)) st)
                                \<lparr>level := nestLevel s, is_valid := False\<rparr>)
                (vstates s (pk, True, vk)))"
    using r(3) by blast
  show "\<forall>vp. vp \<notin> (\<lambda>vk. (pk, True, vk)) ` set (trans_keys s pk) \<longrightarrow>
         vstates s' vp = vstates s vp"
    using r(5) by blast
  assume "changesStack s \<noteq> None"
  then show "\<forall>vk \<in> set (trans_keys s pk).
            vstates s' (pk, True, vk) =
              (if vstates s (pk, True, vk) \<noteq> [] \<and>
                  level (hd (vstates s (pk, True, vk))) = nestLevel s
               then map_head (\<lambda>st. st\<lparr>is_valid := False\<rparr>) (vstates s (pk, True, vk))
               else push_copy (\<lambda>st. (sv_state (vrec s (pk, True, vk)) st)
                                   \<lparr>level := nestLevel s, is_valid := False\<rparr>)
                      (vstates s (pk, True, vk)))"
    using r(4) by blast
qed

theorem C5_resurrect_witness:
  "pstates (snd (projr (createPackage ''p'' True (snd (projr removed_under_savepoint))))) ''p''
     = [\<lparr>is_valid = True, level = 2, trans_var_num = 0\<rparr>,
        \<lparr>is_valid = False, level = 1, trans_var_num = 0\<rparr>] \<and>
   vstates (snd (projr (createPackage ''p'' True (snd (projr removed_under_savepoint)))))
       (''p'', True, ''t'')
     = [\<lparr>is_valid = False, level = 2, scalar = \<lparr>datum_value = 1, is_null = False\<rparr>,
         recordv = \<lparr>tupdesc = None, rhash = []\<rparr>\<rparr>,
        \<lparr>is_valid = True, level = 1, scalar = \<lparr>datum_value = 1, is_null = False\<rparr>,
         recordv = \<lparr>tupdesc = None, rhash = []\<rparr>\<rparr>] \<and>
   (\<exists>s1. createPackage ''p'' True (snd (projr removed_under_savepoint)) = Inr (''p'', s1))"
proof -
  let ?s = "snd (projr removed_under_savepoint)"
  let ?s' = "snd (projr (createPackage ''p'' True ?s))"
  let ?pst = "\<lparr>is_valid = False, level = 1, trans_var_num = 0\<rparr>"
  have run: "createPackage ''p'' True ?s = Inr (''p'', ?s')"
    by code_simp
  have pre: "nestLevel ?s = 2" "key_of ''p'' = ''p''" "getKeyFromName ''p'' = Inr ''p''"
    "pstates ?s ''p'' = [?pst]" "trans_keys ?s ''p'' = [''t'']" "changesStack ?s \<noteq> None"
    "frames ?s \<noteq> []" "vrec ?s (''p'', True, ''t'') = False"
    "vstates ?s (''p'', True, ''t'')
       = [\<lparr>is_valid = True, level = 1, scalar = \<lparr>datum_value = 1, is_null = False\<rparr>,
           recordv = \<lparr>tupdesc = None, rhash = []\<rparr>\<rparr>]"
    by code_simp+
  show ?thesis
    using C5_resurrect [of "''p''" True ?s "''p''" ?s' ?pst "[]" "''p''"] run pre
    by (simp add: sv_state_def zero_VarState_def del: not_None_eq)
qed

section \<open>The counter after \<open>variable_set\<close>\<close>







lemma trans_keys_effect_pack [simp]:
  "trans_keys (createPackage_effect key tr s) k = trans_keys s k"
  by (auto simp: trans_keys_def tab_keys_effect_pack)





lemma found_in_trans_keys:
  "find_variable s (pk, True, key) \<noteq> None \<Longrightarrow> key \<in> set (trans_keys s pk)"
proof -
  assume "find_variable s (pk, True, key) \<noteq> None"
  then obtain pack h var where "find_package s pk = Some pack" "pack_htab pack True = Some h"
    "map_of h key = Some var"
    by (auto simp: find_variable_def split: option.splits)
  moreover from this have "(key, var) \<in> set h" by (auto dest: map_of_SomeD)
  ultimately show ?thesis
    by (force simp: trans_keys_def tab_keys_def)
qed





lemma var_valid_set_scalar [simp]: "var_valid (set_scalar vp sc s) = var_valid s"
proof
  fix vp'
  show "var_valid (set_scalar vp sc s) vp' = var_valid s vp'"
    by (cases "vstates s vp") (auto simp: var_valid_def)
qed

lemma trans_keys_set_scalar [simp]: "trans_keys (set_scalar vp sc s) = trans_keys s"
  by (simp add: trans_keys_def fun_eq_iff)



section \<open>The frame of \<open>variable_set\<close>, all variables (C10)\<close>

lemma set_frame_others:
  assumes set: "variable_set p v T x isnull True s = Inr ((), s')" and lvl: "0 < nestLevel s"
    and old: "vstates s (key_of p, True, key_of v) = st # rest"
  shows "vp' \<noteq> (key_of p, True, key_of v) \<Longrightarrow>
         is_valid (hd (pstates s (key_of p))) \<or>
           vp' \<notin> (\<lambda>vk. (key_of p, True, vk)) ` set (trans_keys s (key_of p)) \<Longrightarrow>
         vstates s' vp' = vstates s vp'"
    and "\<not> is_valid (hd (pstates s (key_of p))) \<Longrightarrow> vk \<in> set (trans_keys s (key_of p)) \<Longrightarrow>
         vk \<noteq> key_of v \<Longrightarrow> vstates s (key_of p, True, vk) \<noteq> [] \<Longrightarrow>
           \<not> is_valid (hd (vstates s' (key_of p, True, vk))) \<and>
           level (hd (vstates s' (key_of p, True, vk))) = nestLevel s \<and>
           (vstates s' (key_of p, True, vk)
              = map_head (\<lambda>st. st\<lparr>is_valid := False\<rparr>) (vstates s (key_of p, True, vk)) \<or>
            vstates s' (key_of p, True, vk)
              = push_copy (\<lambda>st. (sv_state (vrec s (key_of p, True, vk)) st)
                                  \<lparr>level := nestLevel s, is_valid := False\<rparr>)
                  (vstates s (key_of p, True, vk)))"
    and "\<not> is_valid (hd (pstates s (key_of p))) \<Longrightarrow> changesStack s \<noteq> None \<Longrightarrow>
         vk \<in> set (trans_keys s (key_of p)) \<Longrightarrow> vk \<noteq> key_of v \<Longrightarrow>
           vstates s' (key_of p, True, vk) =
             (if vstates s (key_of p, True, vk) \<noteq> [] \<and>
                 level (hd (vstates s (key_of p, True, vk))) = nestLevel s
              then map_head (\<lambda>st. st\<lparr>is_valid := False\<rparr>) (vstates s (key_of p, True, vk))
              else push_copy (\<lambda>st. (sv_state (vrec s (key_of p, True, vk)) st)
                                  \<lparr>level := nestLevel s, is_valid := False\<rparr>)
                     (vstates s (key_of p, True, vk)))"
    and "is_valid (hd (pstates s (key_of p))) \<or> changesStack s \<noteq> None \<Longrightarrow>
           vstates s' (key_of p, True, key_of v) =
             (if level st = nestLevel s
              then hd (vstates s' (key_of p, True, key_of v)) # rest
              else hd (vstates s' (key_of p, True, key_of v)) # st # rest)"
proof -
  from set obtain pk s1 vp s2 sc where
    cp: "createPackage p True s = Inr (pk, s1)"
    and cv: "createVariableInternal pk v T False True s1 = Inr (vp, s2)"
    and gv: "GetActualValue_scalar vp s2 = Inr (sc, s2)"
    and s': "s' = set_scalar vp
               (if \<not> isnull then sc\<lparr>is_null := isnull, datum_value := datumCopy x\<rparr>
                else sc\<lparr>is_null := isnull, datum_value := 0\<rparr>) s2"
    by (auto simp: variable_set_def bnd_eq_Inr GetActualValue_scalar_Inr')
  note pI = createPackage_Inr [OF cp lvl]
  have pk: "pk = key_of p" using pI(1) by (rule getKeyFromName_key_of)
  have lvl1: "0 < nestLevel s1" using lvl pI(2) by simp
  from cv lvl1 obtain key where key: "getKeyFromName v = Inr key" and vp: "vp = (pk, True, key)"
    and tab: "tab_keys s1 pk True \<noteq> None"
    and s2: "s2 = createVariableInternal_effect pk key T False True s1"
    by (rule createVariableInternal_Inr)
  have k: "key = key_of v" using key by (rule getKeyFromName_key_of)
  let ?vp = "(key_of p, True, key_of v)"
  have found: "find_variable s ?vp \<noteq> None"
    using old by (auto simp: vstates_def split: option.splits)
  then have found1: "find_variable s1 ?vp \<noteq> None"
    using vkind_effect_pack [of pk True s ?vp] unfolding pI(2) by (simp flip: vkind_None_iff)
  have pres: "pack_present s (key_of p)"
  proof (rule ccontr)
    assume "\<not> pack_present s (key_of p)"
    then have "find_variable s ?vp = None" by (rule absent_find_variable)
    with found show False by simp
  qed
  then have pne: "pstates s (key_of p) \<noteq> []" using pI(3) pk by simp
  then obtain pst prest where pold: "pstates s (key_of p) = pst # prest"
    by (cases "pstates s (key_of p)") auto
  have v2: "vstates s2 ?vp =
      (if \<not> obj_changed s1 (VarObj ?vp)
       then push_copy (\<lambda>st. (sv_state (vrec s1 ?vp) st)\<lparr>is_valid := True, level := nestLevel s1\<rparr>)
              (vstates s1 ?vp)
       else map_head (\<lambda>st. st\<lparr>is_valid := True\<rparr>) (vstates s1 ?vp))"
    using tab found1 unfolding s2 pk k
    by (simp add: vstates_effect_var del: not_None_eq)
  have v': "vstates s' vp' = (if vp' = ?vp then map_head (\<lambda>st. st\<lparr>scalar :=
               (if \<not> isnull then sc\<lparr>is_null := isnull, datum_value := datumCopy x\<rparr>
                else sc\<lparr>is_null := isnull, datum_value := 0\<rparr>)\<rparr>) (vstates s2 ?vp)
             else vstates s1 vp')" for vp'
    using tab unfolding s' vp s2 pk k
    by (simp add: vstates_effect_var del: not_None_eq)
  have valid_same: "vstates s1 vp' = vstates s vp'" if "is_valid (hd (pstates s (key_of p)))" for vp'
    using that unfolding pI(2) pk by (simp add: vstates_effect_pack_valid)
  show "vstates s' vp' = vstates s vp'"
    if ne: "vp' \<noteq> ?vp"
      and c: "is_valid (hd (pstates s (key_of p))) \<or>
           vp' \<notin> (\<lambda>vk. (key_of p, True, vk)) ` set (trans_keys s (key_of p))"
  proof (cases "is_valid (hd (pstates s (key_of p)))")
    case True
    then show ?thesis using ne by (simp add: v' valid_same)
  next
    case False
    then have inv: "\<not> is_valid pst" using pold by simp
    note r = resurrect [OF cp lvl pold inv]
    from c False have "vp' \<notin> (\<lambda>vk. (pk, True, vk)) ` set (trans_keys s pk)" by (simp add: pk)
    from r(5) [OF this] show ?thesis using ne by (simp add: v')
  qed
  {
    fix vk
    assume inv0: "\<not> is_valid (hd (pstates s (key_of p)))"
      and vk: "vk \<in> set (trans_keys s (key_of p))" and nk: "vk \<noteq> key_of v"
    from inv0 have inv: "\<not> is_valid pst" using pold by simp
    note r = resurrect [OF cp lvl pold inv]
    have e: "vstates s' (key_of p, True, vk) = vstates s1 (key_of p, True, vk)"
      using nk by (simp add: v')
    show "\<not> is_valid (hd (vstates s' (key_of p, True, vk))) \<and>
           level (hd (vstates s' (key_of p, True, vk))) = nestLevel s \<and>
           (vstates s' (key_of p, True, vk)
              = map_head (\<lambda>st. st\<lparr>is_valid := False\<rparr>) (vstates s (key_of p, True, vk)) \<or>
            vstates s' (key_of p, True, vk)
              = push_copy (\<lambda>st. (sv_state (vrec s (key_of p, True, vk)) st)
                                  \<lparr>level := nestLevel s, is_valid := False\<rparr>)
                  (vstates s (key_of p, True, vk)))"
      if "vstates s (key_of p, True, vk) \<noteq> []"
      using r(3) [of vk] vk that unfolding e pk by simp
    show "vstates s' (key_of p, True, vk) =
             (if vstates s (key_of p, True, vk) \<noteq> [] \<and>
                 level (hd (vstates s (key_of p, True, vk))) = nestLevel s
              then map_head (\<lambda>st. st\<lparr>is_valid := False\<rparr>) (vstates s (key_of p, True, vk))
              else push_copy (\<lambda>st. (sv_state (vrec s (key_of p, True, vk)) st)
                                  \<lparr>level := nestLevel s, is_valid := False\<rparr>)
                     (vstates s (key_of p, True, vk)))"
      if "changesStack s \<noteq> None"
      using r(4) [OF that, of vk] vk unfolding e pk by simp
  }
  show "vstates s' ?vp =
             (if level st = nestLevel s then hd (vstates s' ?vp) # rest
              else hd (vstates s' ?vp) # st # rest)"
    if c: "is_valid (hd (pstates s (key_of p))) \<or> changesStack s \<noteq> None"
  proof (cases "is_valid (hd (pstates s (key_of p)))")
    case True
    have ch: "obj_changed s1 (VarObj ?vp) \<longleftrightarrow> level st = nestLevel s"
      using old unfolding obj_changed_simps valid_same [OF True]
      by (simp add: pI(2) del: not_None_eq)
    show ?thesis unfolding v' v2 ch valid_same [OF True] old by simp
  next
    case False
    then have inv: "\<not> is_valid pst" and cs: "changesStack s \<noteq> None" using pold c by simp_all
    note r = resurrect [OF cp lvl pold inv]
    have tk: "key_of v \<in> set (trans_keys s pk)"
      using found unfolding pk by (rule found_in_trans_keys)
    have v1: "vstates s1 ?vp =
          (if level st = nestLevel s then map_head (\<lambda>st. st\<lparr>is_valid := False\<rparr>) (st # rest)
           else push_copy (\<lambda>st'. (sv_state (vrec s ?vp) st')\<lparr>level := nestLevel s, is_valid := False\<rparr>)
                  (st # rest))"
      using r(4) [OF cs tk] unfolding pk old by simp
    have ch: "obj_changed s1 (VarObj ?vp)"
      unfolding obj_changed_simps v1 by (simp add: pI(2) del: not_None_eq)
    show ?thesis unfolding v' v2 v1 using ch by simp
  qed
qed

text \<open>
  C10 (amended). When \<open>variable_set\<close> of a transactional scalar variable that has states
  \<open>st # rest\<close> has returned, the states of that variable are a new actual state on top of
  either \<open>rest\<close> or \<open>st # rest\<close>: every older state is unchanged in place. The actual state
  is valid and holds the value and the null flag of the call; it replaces \<open>st\<close> exactly when
  \<open>st\<close> is of the current nesting level and is pushed on top of it otherwise (given that the
  actual state of the package was valid or a changes stack exists). All states of every other
  variable are unchanged, with one exception: when the actual state of the package was invalid,
  the other transactional variables of that package end with an invalid actual state of the
  current level, which is the old actual state made invalid or a copy pushed on the old states,
  so that their older states are unchanged as well. The regular variables of the package and the
  variables of every other package are unchanged in that case too.
\<close>

theorem C10_frame:
  "variable_set p v T x isnull True s = Inr ((), s') \<and> 0 < nestLevel s \<and>
   vstates s (key_of p, True, key_of v) = st # rest \<longrightarrow>
     (vstates s' (key_of p, True, key_of v) = hd (vstates s' (key_of p, True, key_of v)) # rest \<or>
      vstates s' (key_of p, True, key_of v)
        = hd (vstates s' (key_of p, True, key_of v)) # st # rest) \<and>
     is_valid (hd (vstates s' (key_of p, True, key_of v))) \<and>
     scalar (hd (vstates s' (key_of p, True, key_of v)))
       = \<lparr>datum_value = (if isnull then 0 else x), is_null = isnull\<rparr> \<and>
     (is_valid (hd (pstates s (key_of p))) \<or> changesStack s \<noteq> None \<longrightarrow>
        vstates s' (key_of p, True, key_of v) =
          (if level st = nestLevel s
           then hd (vstates s' (key_of p, True, key_of v)) # rest
           else hd (vstates s' (key_of p, True, key_of v)) # st # rest)) \<and>
     (\<forall>vp'. vp' \<noteq> (key_of p, True, key_of v) \<and>
            (is_valid (hd (pstates s (key_of p))) \<or>
             vp' \<notin> (\<lambda>vk. (key_of p, True, vk)) ` set (trans_keys s (key_of p))) \<longrightarrow>
        vstates s' vp' = vstates s vp') \<and>
     (\<not> is_valid (hd (pstates s (key_of p))) \<longrightarrow>
        (\<forall>vk \<in> set (trans_keys s (key_of p)). vk \<noteq> key_of v \<longrightarrow>
           (vstates s (key_of p, True, vk) \<noteq> [] \<longrightarrow>
              \<not> is_valid (hd (vstates s' (key_of p, True, vk))) \<and>
              level (hd (vstates s' (key_of p, True, vk))) = nestLevel s \<and>
              (vstates s' (key_of p, True, vk)
                 = map_head (\<lambda>st. st\<lparr>is_valid := False\<rparr>) (vstates s (key_of p, True, vk)) \<or>
               vstates s' (key_of p, True, vk)
                 = push_copy (\<lambda>st. (sv_state (vrec s (key_of p, True, vk)) st)
                                     \<lparr>level := nestLevel s, is_valid := False\<rparr>)
                     (vstates s (key_of p, True, vk)))) \<and>
           (changesStack s \<noteq> None \<longrightarrow>
              vstates s' (key_of p, True, vk) =
                (if vstates s (key_of p, True, vk) \<noteq> [] \<and>
                    level (hd (vstates s (key_of p, True, vk))) = nestLevel s
                 then map_head (\<lambda>st. st\<lparr>is_valid := False\<rparr>) (vstates s (key_of p, True, vk))
                 else push_copy (\<lambda>st. (sv_state (vrec s (key_of p, True, vk)) st)
                                     \<lparr>level := nestLevel s, is_valid := False\<rparr>)
                        (vstates s (key_of p, True, vk))))))"
proof (intro impI)
  assume a: "variable_set p v T x isnull True s = Inr ((), s') \<and> 0 < nestLevel s \<and>
   vstates s (key_of p, True, key_of v) = st # rest"
  then have set: "variable_set p v T x isnull True s = Inr ((), s')" and lvl: "0 < nestLevel s"
    and old: "vstates s (key_of p, True, key_of v) = st # rest"
    by simp_all
  note f = set_frame [OF set lvl old]
  note g = set_frame_others [OF set lvl old]
  show "(vstates s' (key_of p, True, key_of v) = hd (vstates s' (key_of p, True, key_of v)) # rest \<or>
      vstates s' (key_of p, True, key_of v)
        = hd (vstates s' (key_of p, True, key_of v)) # st # rest) \<and>
     is_valid (hd (vstates s' (key_of p, True, key_of v))) \<and>
     scalar (hd (vstates s' (key_of p, True, key_of v)))
       = \<lparr>datum_value = (if isnull then 0 else x), is_null = isnull\<rparr> \<and>
     (is_valid (hd (pstates s (key_of p))) \<or> changesStack s \<noteq> None \<longrightarrow>
        vstates s' (key_of p, True, key_of v) =
          (if level st = nestLevel s
           then hd (vstates s' (key_of p, True, key_of v)) # rest
           else hd (vstates s' (key_of p, True, key_of v)) # st # rest)) \<and>
     (\<forall>vp'. vp' \<noteq> (key_of p, True, key_of v) \<and>
            (is_valid (hd (pstates s (key_of p))) \<or>
             vp' \<notin> (\<lambda>vk. (key_of p, True, vk)) ` set (trans_keys s (key_of p))) \<longrightarrow>
        vstates s' vp' = vstates s vp') \<and>
     (\<not> is_valid (hd (pstates s (key_of p))) \<longrightarrow>
        (\<forall>vk \<in> set (trans_keys s (key_of p)). vk \<noteq> key_of v \<longrightarrow>
           (vstates s (key_of p, True, vk) \<noteq> [] \<longrightarrow>
              \<not> is_valid (hd (vstates s' (key_of p, True, vk))) \<and>
              level (hd (vstates s' (key_of p, True, vk))) = nestLevel s \<and>
              (vstates s' (key_of p, True, vk)
                 = map_head (\<lambda>st. st\<lparr>is_valid := False\<rparr>) (vstates s (key_of p, True, vk)) \<or>
               vstates s' (key_of p, True, vk)
                 = push_copy (\<lambda>st. (sv_state (vrec s (key_of p, True, vk)) st)
                                     \<lparr>level := nestLevel s, is_valid := False\<rparr>)
                     (vstates s (key_of p, True, vk)))) \<and>
           (changesStack s \<noteq> None \<longrightarrow>
              vstates s' (key_of p, True, vk) =
                (if vstates s (key_of p, True, vk) \<noteq> [] \<and>
                    level (hd (vstates s (key_of p, True, vk))) = nestLevel s
                 then map_head (\<lambda>st. st\<lparr>is_valid := False\<rparr>) (vstates s (key_of p, True, vk))
                 else push_copy (\<lambda>st. (sv_state (vrec s (key_of p, True, vk)) st)
                                     \<lparr>level := nestLevel s, is_valid := False\<rparr>)
                        (vstates s (key_of p, True, vk))))))"
    using f(1,2,3) g(1,2,3,4) by (intro conjI impI allI ballI) blast+
qed

theorem C10_frame_witness:
  "vstates (snd (projr (variable_set ''p'' ''v'' 23 5 False True (snd (projr two_vars_scenario)))))
       (''p'', True, ''v'')
     = [\<lparr>is_valid = True, level = 2, scalar = \<lparr>datum_value = 5, is_null = False\<rparr>,
         recordv = \<lparr>tupdesc = None, rhash = []\<rparr>\<rparr>,
        \<lparr>is_valid = True, level = 1, scalar = \<lparr>datum_value = 1, is_null = False\<rparr>,
         recordv = \<lparr>tupdesc = None, rhash = []\<rparr>\<rparr>] \<and>
   vstates (snd (projr (variable_set ''p'' ''v'' 23 5 False True (snd (projr two_vars_scenario)))))
       (''p'', True, ''u'')
     = vstates (snd (projr two_vars_scenario)) (''p'', True, ''u'') \<and>
   vstates (snd (projr (variable_set ''p'' ''v'' 23 3 False True (snd (projr removed_scenario)))))
       (''p'', True, ''u'')
     = [\<lparr>is_valid = False, level = 2, scalar = \<lparr>datum_value = 8, is_null = False\<rparr>,
         recordv = \<lparr>tupdesc = None, rhash = []\<rparr>\<rparr>,
        \<lparr>is_valid = True, level = 1, scalar = \<lparr>datum_value = 7, is_null = False\<rparr>,
         recordv = \<lparr>tupdesc = None, rhash = []\<rparr>\<rparr>] \<and>
   vstates (snd (projr (variable_set ''p'' ''v'' 23 3 False True (snd (projr removed_scenario)))))
       (''q'', False, ''r'')
     = vstates (snd (projr removed_scenario)) (''q'', False, ''r'')"
proof -
  let ?s = "snd (projr two_vars_scenario)"
  let ?s' = "snd (projr (variable_set ''p'' ''v'' 23 5 False True ?s))"
  let ?r = "snd (projr removed_scenario)"
  let ?r' = "snd (projr (variable_set ''p'' ''v'' 23 3 False True ?r))"
  let ?st = "\<lparr>is_valid = True, level = 2, scalar = \<lparr>datum_value = 2, is_null = False\<rparr>,
              recordv = \<lparr>tupdesc = None, rhash = []\<rparr>\<rparr>"
  let ?rest = "[\<lparr>is_valid = True, level = 1, scalar = \<lparr>datum_value = 1, is_null = False\<rparr>,
                 recordv = \<lparr>tupdesc = None, rhash = []\<rparr>\<rparr>]"
  have run: "variable_set ''p'' ''v'' 23 5 False True ?s = Inr ((), ?s')"
    "variable_set ''p'' ''v'' 23 3 False True ?r = Inr ((), ?r')"
    by code_simp+
  have pre: "nestLevel ?s = 2" "key_of ''p'' = ''p''" "key_of ''v'' = ''v''"
    "vstates ?s (''p'', True, ''v'') = ?st # ?rest"
    "is_valid (hd (pstates ?s ''p''))"
    "hd (vstates ?s' (''p'', True, ''v''))
       = \<lparr>is_valid = True, level = 2, scalar = \<lparr>datum_value = 5, is_null = False\<rparr>,
          recordv = \<lparr>tupdesc = None, rhash = []\<rparr>\<rparr>"
    by code_simp+
  have pre2: "nestLevel ?r = 2" "vstates ?r (''p'', True, ''v'') = ?st # ?rest"
    "\<not> is_valid (hd (pstates ?r ''p''))" "trans_keys ?r ''p'' = [''v'', ''u'']"
    "changesStack ?r \<noteq> None"
    "vstates ?r (''p'', True, ''u'')
       = [\<lparr>is_valid = True, level = 2, scalar = \<lparr>datum_value = 8, is_null = False\<rparr>,
           recordv = \<lparr>tupdesc = None, rhash = []\<rparr>\<rparr>,
          \<lparr>is_valid = True, level = 1, scalar = \<lparr>datum_value = 7, is_null = False\<rparr>,
           recordv = \<lparr>tupdesc = None, rhash = []\<rparr>\<rparr>]"
    by code_simp+
  have a: "vstates ?s' (''p'', True, ''v'') = hd (vstates ?s' (''p'', True, ''v'')) # ?rest \<and>
           vstates ?s' (''p'', True, ''u'') = vstates ?s (''p'', True, ''u'')"
    using C10_frame [of "''p''" "''v''" 23 5 False ?s ?s' ?st ?rest] run(1) pre
    by simp
  have b: "vstates ?r' (''p'', True, ''u'')
             = map_head (\<lambda>st. st\<lparr>is_valid := False\<rparr>) (vstates ?r (''p'', True, ''u'')) \<and>
           vstates ?r' (''q'', False, ''r'') = vstates ?r (''q'', False, ''r'')"
    using C10_frame [of "''p''" "''v''" 23 3 False ?r ?r' ?st ?rest] run(2) pre(2,3) pre2
    by simp
  show ?thesis
    using a b pre(6) pre2(6) by simp
qed

section \<open>The counter after \<open>remove_package\<close> (C4)\<close>

lemma obs_eq_refl [simp]: "obs_eq s s"
  by (simp add: obs_eq_def)











lemma drop_regular_fields [simp]:
  "nestLevel (drop_regular pk s) = nestLevel s"
  "changesStack (drop_regular pk s) = changesStack s"
  "frames (drop_regular pk s) = frames s"
  by (simp_all add: drop_regular_def frames_def split: option.splits)

lemma find_package_drop_regular:
  "find_package (drop_regular pk s) k =
     (if k = pk then map_option (\<lambda>pack. pack\<lparr>varHashRegular := None\<rparr>) (find_package s pk)
      else find_package s k)"
  by (simp add: drop_regular_def)

lemma drop_regular_obs [simp]:
  "pstates (drop_regular pk s) = pstates s"
  "pack_present (drop_regular pk s) = pack_present s"
  "tab_keys (drop_regular pk s) k tr = (if k = pk \<and> \<not> tr then None else tab_keys s k tr)"
  "vstates (drop_regular pk s) (k, tr, vk) = (if k = pk \<and> \<not> tr then [] else vstates s (k, tr, vk))"
  "trans_keys (drop_regular pk s) = trans_keys s"
  by (auto simp: pstates_def pack_present_def tab_keys_def vstates_def find_variable_def
      trans_keys_def find_package_drop_regular pack_htab_def fun_eq_iff split: option.splits)











section \<open>The top frame inside a sub-transaction\<close>

lemma tl_map_head [simp]: "tl (map_head f xs) = tl xs"
  by (cases xs) simp_all

lemma tl_push_copy [simp]: "xs \<noteq> [] \<Longrightarrow> tl (push_copy f xs) = xs"
  by (cases xs) simp_all






lemma trans_keys_inval_var [simp]: "trans_keys (inval_var pk vk s) = trans_keys s"
  by (simp add: trans_keys_def fun_eq_iff)



















section \<open>Rollback of the changed objects\<close>


lemma pstates_map_htab [simp]: "pstates (map_package pk (map_htab tr g) s) = pstates s"
  by (auto simp: pstates_def fun_eq_iff split: option.splits)
















section \<open>Rollback to a savepoint (C1)\<close>




section \<open>The bound on names in the operations (C9)\<close>

lemma getPackage_eval:
  "getPackage nm strict s =
     (case getKeyFromName nm of
        Inl e \<Rightarrow> Inl (e, s)
      | Inr key \<Rightarrow>
          if pack_present s key \<and> pstates s key = [] then Inl (Fault, s)
          else if pstates s key \<noteq> [] \<and> is_valid (hd (pstates s key)) then Inr (Some key, s)
          else if strict then Inl (UnknownPackage, s)
          else Inr (None, s))"
  by (auto simp: getPackage_def GetActualState_eval pstates_def pack_present_def obj_states_PackObj
      hd_map split: sum.splits option.splits)

lemma getKeyFromName_short: "length nm \<le> 62 \<Longrightarrow> getKeyFromName nm = Inr (key_of nm)"
  by (simp add: getKeyFromName_def NAMEDATALEN_def key_of_def)

lemma variable_name_too_long:
  assumes long: "63 \<le> length v"
  shows "variable_set p v T x isnull tr s =
           (case createPackage p tr s of
              Inl e \<Rightarrow> Inl e
            | Inr (pk, s1) \<Rightarrow> Inl (InvalidParameter, s1))"
    and "variable_get p v T strict s =
           (case getPackage p strict s of
              Inl e \<Rightarrow> Inl e
            | Inr (None, s1) \<Rightarrow> Inr ((0, True), s1)
            | Inr (Some pk, s1) \<Rightarrow> Inl (InvalidParameter, s1))"
    and "remove_variable p v s =
           (case getPackage p True s of
              Inl e \<Rightarrow> Inl e
            | Inr (None, s1) \<Rightarrow> Inl (Fault, s1)
            | Inr (Some pk, s1) \<Rightarrow> Inl (InvalidParameter, s1))"
    and "variable_exists p v s =
           (case getPackage p False s of
              Inl e \<Rightarrow> Inl e
            | Inr (None, s1) \<Rightarrow> Inr (False, s1)
            | Inr (Some pk, s1) \<Rightarrow> Inl (InvalidParameter, s1))"
  using long
  by (auto simp: variable_set_def variable_get_def remove_variable_def variable_exists_def
      bnd_def too_long_rejected getKeyFromName_rejects
      split: sum.splits option.splits prod.splits)

lemma variable_name_too_long_found:
  assumes long: "63 \<le> length v" and p: "length p \<le> 62"
    and st: "pstates s (key_of p) \<noteq> []" and valid: "is_valid (hd (pstates s (key_of p)))"
  shows "variable_get p v T strict s = Inl (InvalidParameter, s)"
    and "remove_variable p v s = Inl (InvalidParameter, s)"
    and "variable_exists p v s = Inl (InvalidParameter, s)"
  using st valid
  by (simp_all add: variable_name_too_long [OF long] getPackage_eval getKeyFromName_short [OF p])

lemma name_not_looked_at:
  assumes p: "length p \<le> 62"
    and gone: "\<not> pack_present s (key_of p) \<or>
               (pstates s (key_of p) \<noteq> [] \<and> \<not> is_valid (hd (pstates s (key_of p))))"
  shows "variable_get p v T False s = Inr ((0, True), s)"
    and "variable_exists p v s = Inr (False, s)"
    and "variable_get p v T True s = Inl (UnknownPackage, s)"
    and "remove_variable p v s = Inl (UnknownPackage, s)"
  using gone pstates_absent [of s "key_of p"]
  by (auto simp: variable_get_def variable_exists_def remove_variable_def getPackage_eval
      getKeyFromName_short [OF p])

lemma ne_Inr: "no_error e (Inr x)"
  by (simp add: no_error_def)

lemma ne_Inl: "e' \<noteq> e \<Longrightarrow> no_error e (Inl (e', s))"
  by (simp add: no_error_def)

lemma ne_bnd: "no_error e r \<Longrightarrow> (\<And>a s1. no_error e (g a s1)) \<Longrightarrow> no_error e (bnd r g)"
  by (cases r) (auto simp: no_error_def bnd_def)

lemma ne_if: "(c \<Longrightarrow> no_error e a) \<Longrightarrow> (\<not> c \<Longrightarrow> no_error e b) \<Longrightarrow> no_error e (if c then a else b)"
  by simp

lemma ne_option:
  "(x = None \<Longrightarrow> no_error e a) \<Longrightarrow> (\<And>y. x = Some y \<Longrightarrow> no_error e (b y)) \<Longrightarrow>
   no_error e (case x of None \<Rightarrow> a | Some y \<Rightarrow> b y)"
  by (cases x) simp_all

lemma ne_list:
  "(x = [] \<Longrightarrow> no_error e a) \<Longrightarrow> (\<And>y ys. x = y # ys \<Longrightarrow> no_error e (b y ys)) \<Longrightarrow>
   no_error e (case x of [] \<Rightarrow> a | y # ys \<Rightarrow> b y ys)"
  by (cases x) simp_all

lemma ne_objptr:
  "(\<And>k. x = PackObj k \<Longrightarrow> no_error e (a k)) \<Longrightarrow> (\<And>vp. x = VarObj vp \<Longrightarrow> no_error e (b vp)) \<Longrightarrow>
   no_error e (case x of PackObj k \<Rightarrow> a k | VarObj vp \<Rightarrow> b vp)"
  by (cases x) simp_all

lemma ne_prod:
  "(\<And>a b. x = (a, b) \<Longrightarrow> no_error e (f a b)) \<Longrightarrow> no_error e (case x of (a, b) \<Rightarrow> f a b)"
  by (cases x) simp_all

lemma ne_pass:
  "no_error e x \<Longrightarrow> (\<And>y. no_error e (g y)) \<Longrightarrow>
   no_error e (case x of Inl e' \<Rightarrow> Inl e' | Inr y \<Rightarrow> g y)"
  by (cases x) (auto simp: no_error_def)

lemmas ne_intros = ne_Inr ne_bnd ne_if ne_option ne_list ne_objptr ne_prod ne_pass

lemma ne_steps:
  "no_error InvalidParameter (GetActualState obj s)"
  "no_error InvalidParameter (isObjectChangedInCurrentTrans obj s)"
  "no_error InvalidParameter (isObjectChangedInUpperTrans obj s)"
  "no_error InvalidParameter (changesStack_is_empty s)"
  "no_error InvalidParameter (isPackageEmpty k s)"
  "no_error InvalidParameter (createSavepoint obj s)"
  "no_error InvalidParameter (addToChangesStackUpperLevel obj s)"
  "no_error InvalidParameter (GetActualValue_scalar vp s)"
  by (auto simp: no_error_def GetActualState_def isObjectChangedInCurrentTrans_def
      isObjectChangedInUpperTrans_def changesStack_is_empty_def isPackageEmpty_def
      createSavepoint_def addToChangesStackUpperLevel_def GetActualValue_scalar_def
      split: list.splits option.splits if_splits)

lemma ne_addToChangesStack: "no_error InvalidParameter (addToChangesStack obj s)"
  unfolding addToChangesStack_def
  by (intro ne_intros ne_steps ne_Inl) simp_all

lemma ne_upd_trans_var_num: "no_error InvalidParameter (upd_trans_var_num k f s)"
  unfolding upd_trans_var_num_def
  by (intro ne_intros ne_steps ne_Inl)

lemma ne_removeObject: "no_error InvalidParameter (removeObject obj s)"
  unfolding removeObject_def
  by (intro ne_intros ne_steps ne_Inl) simp_all

lemma ne_createPackage_loop: "no_error InvalidParameter (createPackage_loop pk ks s)"
proof (induction ks arbitrary: s)
  case Nil
  show ?case by (simp add: ne_Inr)
next
  case (Cons k ks)
  have "no_error InvalidParameter (createPackage_step pk k s)"
    unfolding createPackage_step_def
    by (intro ne_intros ne_steps ne_addToChangesStack ne_Inl)
  then show ?case
    by (simp only: createPackage_loop.simps) (intro ne_intros Cons.IH)
qed

lemma ne_removePackageInternal_loop: "no_error InvalidParameter (removePackageInternal_loop vps s)"
proof (induction vps arbitrary: s)
  case Nil
  show ?case by (simp add: ne_Inr)
next
  case (Cons vp vps)
  have "no_error InvalidParameter (removePackageInternal_step vp s)"
    unfolding removePackageInternal_step_def
    by (intro ne_intros ne_steps ne_Inl)
  then show ?case
    by (simp only: removePackageInternal_loop.simps) (intro ne_intros Cons.IH)
qed

lemma ne_removePackageInternal: "no_error InvalidParameter (removePackageInternal pk s)"
  unfolding removePackageInternal_def
  by (intro ne_intros ne_steps ne_removePackageInternal_loop ne_addToChangesStack
      ne_upd_trans_var_num ne_Inl) simp_all

lemma ne_getPackage:
  assumes a: "length p \<le> 62"
  shows "no_error InvalidParameter (getPackage p strict s)"
  unfolding getPackage_def getKeyFromName_short [OF a] sum.case
  by (intro ne_intros ne_steps ne_Inl; simp)

lemma ne_createPackage:
  assumes a: "length p \<le> 62"
  shows "no_error InvalidParameter (createPackage p tr s)"
  unfolding createPackage_def getKeyFromName_short [OF a] sum.case
  by (intro ne_intros ne_steps ne_createPackage_loop ne_addToChangesStack ne_Inl; simp)

lemma ne_createVariableInternal:
  assumes a: "length v \<le> 62"
  shows "no_error InvalidParameter (createVariableInternal pk v T ir tr s)"
  unfolding createVariableInternal_def getKeyFromName_short [OF a] sum.case
  by (intro ne_intros ne_steps ne_addToChangesStack ne_upd_trans_var_num ne_Inl; simp)

lemma ne_getVariableInternal:
  assumes a: "length v \<le> 62"
  shows "no_error InvalidParameter (getVariableInternal pk v T ir strict s)"
  unfolding getVariableInternal_def getKeyFromName_short [OF a] sum.case
  by (intro ne_intros ne_steps ne_Inl; simp)

lemma names_accepted:
  assumes p: "length p \<le> 62" and v: "length v \<le> 62"
  shows "no_error InvalidParameter (variable_set p v T x isnull tr s)"
    and "no_error InvalidParameter (variable_get p v T strict s)"
    and "no_error InvalidParameter (remove_variable p v s)"
    and "no_error InvalidParameter (variable_exists p v s)"
    and "no_error InvalidParameter (remove_package p s)"
    and "no_error InvalidParameter (package_exists p s)"
proof -
  note basic = ne_intros ne_steps ne_Inl ne_getPackage [OF p] ne_createPackage [OF p]
    ne_createVariableInternal [OF v] ne_getVariableInternal [OF v] ne_removePackageInternal
    ne_removeObject ne_addToChangesStack ne_upd_trans_var_num
  show "no_error InvalidParameter (variable_set p v T x isnull tr s)"
    unfolding variable_set_def by (intro basic)
  show "no_error InvalidParameter (variable_get p v T strict s)"
    unfolding variable_get_def by (intro basic)
  show "no_error InvalidParameter (remove_variable p v s)"
    unfolding remove_variable_def by (intro basic; simp)
  show "no_error InvalidParameter (variable_exists p v s)"
    unfolding variable_exists_def getKeyFromName_short [OF v] sum.case
    by (intro basic; simp)
  show "no_error InvalidParameter (remove_package p s)"
    unfolding remove_package_def by (intro basic; simp)
  show "no_error InvalidParameter (package_exists p s)"
    unfolding package_exists_def by (intro basic)
qed

text \<open>
  C9 (amended). The conversion of a name to a key accepts every name of at most 62 bytes, and no
  operation called with a package name and a variable name of at most 62 bytes raises
  \<open>InvalidParameter\<close>. A name of 64 bytes or more is refused with \<open>InvalidParameter\<close> by the
  conversion and by every operation at the point where it converts that name: a package name in
  every operation, with the store as it was; a variable name in \<open>variable_get\<close>,
  \<open>remove_variable\<close> and \<open>variable_exists\<close> when the package is in the store with a valid
  actual state, with the store as it was, and in \<open>variable_set\<close> whenever its \<open>createPackage\<close>
  has returned, with the store that \<open>createPackage\<close> left. An operation that returns before
  it converts the variable name does not look at it: for a package that is not in the store, or
  whose actual state is invalid, \<open>variable_get\<close> without \<open>strict\<close> returns null and
  \<open>variable_exists\<close> returns false for every variable name, and \<open>variable_get\<close> with
  \<open>strict\<close> and \<open>remove_variable\<close> raise \<open>UnknownPackage\<close>.
\<close>

theorem C9_name_length:
  "(length nm \<le> 62 \<longrightarrow> getKeyFromName nm = Inr (takeWhile (\<lambda>c. c \<noteq> CHR 0x00) nm)) \<and>
   (length p \<le> 62 \<and> length v \<le> 62 \<longrightarrow>
      variable_set p v T x isnull tr s \<noteq> Inl (InvalidParameter, s1) \<and>
      variable_get p v T strict s \<noteq> Inl (InvalidParameter, s1) \<and>
      remove_variable p v s \<noteq> Inl (InvalidParameter, s1) \<and>
      variable_exists p v s \<noteq> Inl (InvalidParameter, s1) \<and>
      remove_package p s \<noteq> Inl (InvalidParameter, s1) \<and>
      package_exists p s \<noteq> Inl (InvalidParameter, s1)) \<and>
   (64 \<le> length nm \<longrightarrow>
      getKeyFromName nm = Inl InvalidParameter \<and>
      createPackage nm tr s = Inl (InvalidParameter, s) \<and>
      getPackage nm strict s = Inl (InvalidParameter, s) \<and>
      createVariableInternal pk nm T ir tr s = Inl (InvalidParameter, s) \<and>
      getVariableInternal pk nm T ir strict s = Inl (InvalidParameter, s) \<and>
      variable_set nm v T x isnull tr s = Inl (InvalidParameter, s) \<and>
      variable_get nm v T strict s = Inl (InvalidParameter, s) \<and>
      remove_package nm s = Inl (InvalidParameter, s) \<and>
      remove_variable nm v s = Inl (InvalidParameter, s) \<and>
      package_exists nm s = Inl (InvalidParameter, s) \<and>
      variable_exists nm v s = Inl (InvalidParameter, s) \<and>
      variable_set p nm T x isnull tr s =
        (case createPackage p tr s of
           Inl e \<Rightarrow> Inl e
         | Inr (k, s') \<Rightarrow> Inl (InvalidParameter, s')) \<and>
      variable_get p nm T strict s =
        (case getPackage p strict s of
           Inl e \<Rightarrow> Inl e
         | Inr (None, s') \<Rightarrow> Inr ((0, True), s')
         | Inr (Some k, s') \<Rightarrow> Inl (InvalidParameter, s')) \<and>
      remove_variable p nm s =
        (case getPackage p True s of
           Inl e \<Rightarrow> Inl e
         | Inr (None, s') \<Rightarrow> Inl (Fault, s')
         | Inr (Some k, s') \<Rightarrow> Inl (InvalidParameter, s')) \<and>
      variable_exists p nm s =
        (case getPackage p False s of
           Inl e \<Rightarrow> Inl e
         | Inr (None, s') \<Rightarrow> Inr (False, s')
         | Inr (Some k, s') \<Rightarrow> Inl (InvalidParameter, s')) \<and>
      (length p \<le> 62 \<and> pstates s (key_of p) \<noteq> [] \<and> is_valid (hd (pstates s (key_of p))) \<longrightarrow>
         variable_get p nm T strict s = Inl (InvalidParameter, s) \<and>
         remove_variable p nm s = Inl (InvalidParameter, s) \<and>
         variable_exists p nm s = Inl (InvalidParameter, s))) \<and>
   (length p \<le> 62 \<and>
    (\<not> pack_present s (key_of p) \<or>
     pstates s (key_of p) \<noteq> [] \<and> \<not> is_valid (hd (pstates s (key_of p)))) \<longrightarrow>
      variable_get p v T False s = Inr ((0, True), s) \<and>
      variable_exists p v s = Inr (False, s) \<and>
      variable_get p v T True s = Inl (UnknownPackage, s) \<and>
      remove_variable p v s = Inl (UnknownPackage, s))"
proof (intro conjI impI)
  assume "length p \<le> 62 \<and> length v \<le> 62"
  then have p: "length p \<le> 62" and v: "length v \<le> 62" by simp_all
  note n = names_accepted [OF p v, unfolded no_error_def]
  show "variable_set p v T x isnull tr s \<noteq> Inl (InvalidParameter, s1)" using n(1) by blast
  show "variable_get p v T strict s \<noteq> Inl (InvalidParameter, s1)" using n(2) by blast
  show "remove_variable p v s \<noteq> Inl (InvalidParameter, s1)" using n(3) by blast
  show "variable_exists p v s \<noteq> Inl (InvalidParameter, s1)" using n(4) by blast
  show "remove_package p s \<noteq> Inl (InvalidParameter, s1)" using n(5) by blast
  show "package_exists p s \<noteq> Inl (InvalidParameter, s1)" using n(6) by blast
next
  assume a: "length p \<le> 62 \<and>
    (\<not> pack_present s (key_of p) \<or>
     pstates s (key_of p) \<noteq> [] \<and> \<not> is_valid (hd (pstates s (key_of p))))"
  then have p: "length p \<le> 62" and g: "\<not> pack_present s (key_of p) \<or>
               (pstates s (key_of p) \<noteq> [] \<and> \<not> is_valid (hd (pstates s (key_of p))))"
    by simp_all
  note e = name_not_looked_at [OF p g]
  show "variable_get p v T False s = Inr ((0, True), s)" by (rule e)
  show "variable_exists p v s = Inr (False, s)" by (rule e)
  show "variable_get p v T True s = Inl (UnknownPackage, s)" by (rule e)
  show "remove_variable p v s = Inl (UnknownPackage, s)" by (rule e)
next
  assume "length nm \<le> 62"
  then show "getKeyFromName nm = Inr (takeWhile (\<lambda>c. c \<noteq> CHR 0x00) nm)"
    by (rule getKeyFromName_accepts)
next
  assume "64 \<le> length nm"
  then have l: "63 \<le> length nm" by simp
  note r = too_long_rejected [OF l]
  note w = variable_name_too_long [OF l]
  show "getKeyFromName nm = Inl InvalidParameter" using l by (rule getKeyFromName_rejects)
  show "createPackage nm tr s = Inl (InvalidParameter, s)" by (rule r)
  show "getPackage nm strict s = Inl (InvalidParameter, s)" by (rule r)
  show "createVariableInternal pk nm T ir tr s = Inl (InvalidParameter, s)" by (rule r)
  show "getVariableInternal pk nm T ir strict s = Inl (InvalidParameter, s)" by (rule r)
  show "variable_set nm v T x isnull tr s = Inl (InvalidParameter, s)" by (rule r)
  show "variable_get nm v T strict s = Inl (InvalidParameter, s)" by (rule r)
  show "remove_package nm s = Inl (InvalidParameter, s)" by (rule r)
  show "remove_variable nm v s = Inl (InvalidParameter, s)" by (rule r)
  show "package_exists nm s = Inl (InvalidParameter, s)" by (rule r)
  show "variable_exists nm v s = Inl (InvalidParameter, s)" by (rule r)
  show "variable_set p nm T x isnull tr s =
        (case createPackage p tr s of
           Inl e \<Rightarrow> Inl e
         | Inr (k, s') \<Rightarrow> Inl (InvalidParameter, s'))" by (rule w)
  show "variable_get p nm T strict s =
        (case getPackage p strict s of
           Inl e \<Rightarrow> Inl e
         | Inr (None, s') \<Rightarrow> Inr ((0, True), s')
         | Inr (Some k, s') \<Rightarrow> Inl (InvalidParameter, s'))" by (rule w)
  show "remove_variable p nm s =
        (case getPackage p True s of
           Inl e \<Rightarrow> Inl e
         | Inr (None, s') \<Rightarrow> Inl (Fault, s')
         | Inr (Some k, s') \<Rightarrow> Inl (InvalidParameter, s'))" by (rule w)
  show "variable_exists p nm s =
        (case getPackage p False s of
           Inl e \<Rightarrow> Inl e
         | Inr (None, s') \<Rightarrow> Inr (False, s')
         | Inr (Some k, s') \<Rightarrow> Inl (InvalidParameter, s'))" by (rule w)
  assume b: "length p \<le> 62 \<and> pstates s (key_of p) \<noteq> [] \<and> is_valid (hd (pstates s (key_of p)))"
  then have p: "length p \<le> 62" and st: "pstates s (key_of p) \<noteq> []"
    and valid: "is_valid (hd (pstates s (key_of p)))" by simp_all
  note f = variable_name_too_long_found [OF l p st valid]
  show "variable_get p nm T strict s = Inl (InvalidParameter, s)" by (rule f)
  show "remove_variable p nm s = Inl (InvalidParameter, s)" by (rule f)
  show "variable_exists p nm s = Inl (InvalidParameter, s)" by (rule f)
qed

theorem C9_name_length_witness:
  "getKeyFromName ''pkg'' = Inr ''pkg'' \<and>
   variable_set ''p'' ''v'' 23 1 False True fresh_session \<noteq> Inl (InvalidParameter, fresh_session) \<and>
   getKeyFromName (replicate 64 (CHR ''a'')) = Inl InvalidParameter \<and>
   variable_set (replicate 64 (CHR ''a'')) ''v'' 23 1 False True fresh_session
     = Inl (InvalidParameter, fresh_session) \<and>
   variable_get ''p'' (replicate 64 (CHR ''a'')) 23 True ex_tx = Inl (InvalidParameter, ex_tx) \<and>
   remove_variable ''p'' (replicate 64 (CHR ''a'')) ex_tx = Inl (InvalidParameter, ex_tx) \<and>
   variable_exists ''p'' (replicate 64 (CHR ''a'')) ex_tx = Inl (InvalidParameter, ex_tx) \<and>
   variable_get ''p'' (replicate 64 (CHR ''a'')) 23 False fresh_session
     = Inr ((0, True), fresh_session) \<and>
   variable_exists ''p'' (replicate 64 (CHR ''a'')) fresh_session = Inr (False, fresh_session) \<and>
   variable_set ''p'' (replicate 64 (CHR ''a'')) 23 1 False True fresh_session
     = Inl (InvalidParameter, snd (projr (createPackage ''p'' True fresh_session))) \<and>
   pack_present (snd (projr (createPackage ''p'' True fresh_session))) ''p'' \<and>
   \<not> pack_present fresh_session ''p''"
proof -
  let ?L = "replicate 64 (CHR ''a'')"
  let ?S = "snd (projr (createPackage ''p'' True fresh_session))"
  have len: "length ''pkg'' \<le> 62" "length ''p'' \<le> 62" "length ''v'' \<le> 62" "64 \<le> length ?L"
    by simp_all
  have k: "takeWhile (\<lambda>c. c \<noteq> CHR 0x00) ''pkg'' = ''pkg''" "key_of ''p'' = ''p''"
    by code_simp+
  have tx: "pstates ex_tx ''p'' \<noteq> []" "is_valid (hd (pstates ex_tx ''p''))"
    "getPackage ''p'' True ex_tx = Inr (Some ''p'', ex_tx)"
    "getPackage ''p'' False ex_tx = Inr (Some ''p'', ex_tx)"
    by code_simp+
  have fr: "\<not> pack_present fresh_session ''p''" "pack_present ?S ''p''"
    "getPackage ''p'' False fresh_session = Inr (None, fresh_session)"
    by code_simp+
  have cp: "(case createPackage ''p'' True fresh_session of
                Inl e \<Rightarrow> Inl e
              | Inr (k, s') \<Rightarrow> Inl (InvalidParameter, s')) = (Inl (InvalidParameter, ?S) :: unit res)"
    by code_simp
  have a: "getKeyFromName ''pkg'' = Inr ''pkg'' \<and>
     variable_set ''p'' ''v'' 23 1 False True fresh_session \<noteq> Inl (InvalidParameter, fresh_session)"
    using C9_name_length [where nm = "''pkg''" and p = "''p''" and v = "''v''" and T = 23 and x = 1
        and isnull = False and tr = True and s = fresh_session and ?s1.0 = fresh_session
        and strict = True and pk = "''p''" and ir = False] len k
    by simp
  have b: "getKeyFromName ?L = Inl InvalidParameter \<and>
     variable_get ''p'' ?L 23 True ex_tx = Inl (InvalidParameter, ex_tx) \<and>
     remove_variable ''p'' ?L ex_tx = Inl (InvalidParameter, ex_tx) \<and>
     variable_exists ''p'' ?L ex_tx = Inl (InvalidParameter, ex_tx)"
    using C9_name_length [where nm = ?L and p = "''p''" and v = "''v''" and T = 23 and x = 1
        and isnull = False and tr = True and s = ex_tx and ?s1.0 = ex_tx
        and strict = True and pk = "''p''" and ir = False] len k tx
    by simp
  have c: "variable_set ?L ''v'' 23 1 False True fresh_session = Inl (InvalidParameter, fresh_session) \<and>
     variable_get ''p'' ?L 23 False fresh_session = Inr ((0, True), fresh_session) \<and>
     variable_exists ''p'' ?L fresh_session = Inr (False, fresh_session) \<and>
     variable_set ''p'' ?L 23 1 False True fresh_session = Inl (InvalidParameter, ?S)"
    using C9_name_length [where nm = ?L and p = "''p''" and v = "''v''" and T = 23 and x = 1
        and isnull = False and tr = True and s = fresh_session and ?s1.0 = fresh_session
        and strict = False and pk = "''p''" and ir = False] len k fr cp
    by simp
  show ?thesis using a b c fr by simp
qed

(*LEMMAS*)

end
